theory Spec2Isabelle
  imports Main "HOL-Library.AList" "HOL-Library.Multiset"
    "HOL-Library.Char_ord" "HOL-Library.List_Lexorder"
begin


section \<open>Go string helpers used by the file resolver\<close>

text \<open>
  A Go \<^verbatim>\<open>string\<close> is a sequence of bytes, here a \<^typ>\<open>string\<close> (a list of
  \<^typ>\<open>char\<close>). The functions below follow the bodies of the Go standard library:
  \<^verbatim>\<open>strings.HasPrefix\<close>, \<^verbatim>\<open>strings.HasSuffix\<close>, \<^verbatim>\<open>strings.TrimSuffix\<close> and
  \<^verbatim>\<open>strings.Contains\<close>. Go compares strings with \<^verbatim>\<open><\<close> byte by byte, a proper
  prefix being smaller: that is the order of \<^typ>\<open>char list\<close> given by
  \<open>List_Lexorder\<close> over \<open>Char_ord\<close>.
\<close>

definition HasPrefix :: "string \<Rightarrow> string \<Rightarrow> bool" where
  "HasPrefix s pre = (length pre \<le> length s \<and> take (length pre) s = pre)"

definition HasSuffix :: "string \<Rightarrow> string \<Rightarrow> bool" where
  "HasSuffix s suf = (length suf \<le> length s \<and> drop (length s - length suf) s = suf)"

definition TrimSuffix :: "string \<Rightarrow> string \<Rightarrow> string" where
  "TrimSuffix s suf = (if HasSuffix s suf then take (length s - length suf) s else s)"

fun Contains :: "string \<Rightarrow> string \<Rightarrow> bool" where
  "Contains [] sub = (sub = [])"
| "Contains (c # s) sub = (HasPrefix (c # s) sub \<or> Contains s sub)"

section \<open>The target file resolver (pkg/file/file.go)\<close>

text \<open>
  \<^verbatim>\<open>os.FileInfo\<close> is an interface; the resolver only calls \<^verbatim>\<open>Name()\<close> on it and
  hands the values on. The record keeps the name and two more of the interface's
  observations, so that two entries of one name can still differ.
\<close>

record file_info =
  Name :: string
  Size :: int
  IsDir :: bool

datatype os_error = ErrNotExist | ErrPermission | ErrNotDir | ErrOther string

text \<open>
  \<^verbatim>\<open>matching := map[string]os.FileInfo{}\<close> is an association list with one pair per
  key: \<^verbatim>\<open>matching[k] = v\<close> is \<^const>\<open>AList.update\<close>, \<^verbatim>\<open>_, exists := matching[k]\<close>
  is \<^const>\<open>map_of\<close>.
\<close>

type_synonym matching = "(string \<times> file_info) list"

text \<open>
  Go leaves the order in which \<^verbatim>\<open>range\<close> visits a map unspecified and varies it
  between runs. The order is a parameter of the model: a function from the map to the
  sequence of its entries as the runtime hands them out. A run of the program
  corresponds to a parameter that enumerates every entry of the map exactly once.
\<close>

type_synonym range_order = "matching \<Rightarrow> matching"

definition enumerates :: "range_order \<Rightarrow> bool" where
  "enumerates rng = (\<forall>m. mset (rng m) = mset m)"

definition target_suffix :: "string \<Rightarrow> string \<Rightarrow> string" where
  \<comment> \<open>\<^verbatim>\<open>fmt.Sprintf("-%s%s", target, suffix)\<close>\<close>
  "target_suffix target suffix = ''-'' @ target @ suffix"

definition override_name :: "string \<Rightarrow> string \<Rightarrow> string \<Rightarrow> string" where
  \<comment> \<open>\<^verbatim>\<open>fmt.Sprintf("%s-%s%s", strings.TrimSuffix(k, suffix), target, suffix)\<close>\<close>
  "override_name k target suffix = TrimSuffix k suffix @ ''-'' @ target @ suffix"

text \<open>The first loop (lines 28 to 37): which directory entries enter the map.\<close>

fun scan :: "file_info list \<Rightarrow> string \<Rightarrow> string \<Rightarrow> matching \<Rightarrow> matching" where
  "scan [] target suffix m = m"
| "scan (info # files) target suffix m =
     scan files target suffix
       (if HasSuffix (Name info) suffix then
          (if HasSuffix (Name info) (target_suffix target suffix)
              \<or> \<not> Contains (Name info) ''-''
           then AList.update (Name info) info m
           else m)
        else m)"

text \<open>
  The second loop (lines 38 to 52) over the entries of the map in the order the
  runtime gives them; \<open>result\<close> is the slice being appended to.
\<close>

fun select :: "matching \<Rightarrow> matching \<Rightarrow> string \<Rightarrow> string \<Rightarrow> file_info list \<Rightarrow> file_info list" where
  "select [] m target suffix result = result"
| "select ((k, v) # kvs) m target suffix result =
     (if HasSuffix k (target_suffix target suffix) then
        select kvs m target suffix (result @ [v])
      else
        (let name = override_name k target suffix in
         if map_of m name = None then select kvs m target suffix (result @ [v])
         else select kvs m target suffix result))"

text \<open>
  \<^verbatim>\<open>sort.Slice(result, func(i, j) { return result[i].Name() < result[j].Name() })\<close>
  sorts by name. It is not a stable sort, but the names in \<open>result\<close> are keys of one
  map and so pairwise different, and on such a list every correct sort returns the
  same sequence (lemma \<open>sort_by_name_unique\<close> below); insertion sort stands for it.

  The function takes the file system as the result of \<^verbatim>\<open>ioutil.ReadDir\<close> on each
  path. The \<^verbatim>\<open>log.Debugf\<close> lines write to the debug log only and are left out;
  \<open>filetype\<close> is used by nothing else.
\<close>

definition filesForTarget ::
  "range_order \<Rightarrow> (string \<Rightarrow> os_error + file_info list) \<Rightarrow>
     string \<Rightarrow> string \<Rightarrow> string \<Rightarrow> string \<Rightarrow> os_error + file_info list" where
  "filesForTarget rng ReadDir dir target filetype suffix =
     (case ReadDir dir of
        Inl err \<Rightarrow> Inl err
      | Inr files \<Rightarrow>
          (let m = scan files target suffix [];
               result = select (rng m) m target suffix []
           in Inr (sort_key Name result)))"

definition FindFilesForTarget ::
  "range_order \<Rightarrow> (string \<Rightarrow> os_error + file_info list) \<Rightarrow>
     string \<Rightarrow> string \<Rightarrow> os_error + file_info list" where
  "FindFilesForTarget rng ReadDir dir target =
     filesForTarget rng ReadDir dir target ''file'' ''.yaml''"

definition FindScriptsForTarget ::
  "range_order \<Rightarrow> (string \<Rightarrow> os_error + file_info list) \<Rightarrow>
     string \<Rightarrow> string \<Rightarrow> os_error + file_info list" where
  "FindScriptsForTarget rng ReadDir dir target =
     filesForTarget rng ReadDir dir target ''script'' ''.sh''"

text \<open>
  The two conditions of the source, named: \<open>candidate\<close> is the test of the first loop
  (lines 29 and 31) for a name to enter the map, \<open>accepted\<close> the test of the second
  loop (lines 40 and 45) for a key of the map to reach the result.
\<close>

definition candidate :: "string \<Rightarrow> string \<Rightarrow> string \<Rightarrow> bool" where
  "candidate target suffix n =
     (HasSuffix n suffix \<and> (HasSuffix n (target_suffix target suffix) \<or> \<not> Contains n ''-''))"

definition accepted :: "matching \<Rightarrow> string \<Rightarrow> string \<Rightarrow> string \<Rightarrow> bool" where
  "accepted m target suffix k =
     (HasSuffix k (target_suffix target suffix) \<or> map_of m (override_name k target suffix) = None)"

text \<open>
  Two directories to run the resolver on: the one of the resolver example (\<open>a.yaml\<close>,
  \<open>a-prod.yaml\<close>, \<open>b.yaml\<close>, with a file of another kind and a file of another
  target), and one where a file of another target has no default beside it.
\<close>

definition entry :: "string \<Rightarrow> file_info" where
  "entry n = \<lparr>Name = n, Size = 0, IsDir = False\<rparr>"

definition example_listing :: "file_info list" where
  "example_listing =
     map entry [''a-prod.yaml'', ''a.yaml'', ''b.yaml'', ''readme.md'', ''x-other.yaml'']"

definition example_fs :: "string \<Rightarrow> os_error + file_info list" where
  "example_fs d = (if d = ''k8s'' then Inr example_listing else Inl ErrNotExist)"

definition other_listing :: "file_info list" where
  "other_listing = map entry [''x-other.yaml'', ''y.yaml'']"

definition other_fs :: "string \<Rightarrow> os_error + file_info list" where
  "other_fs d = (if d = ''k8s'' then Inr other_listing else Inl ErrNotExist)"

section \<open>CI provider detection and the build name (pkg/ci/ci.go)\<close>

text \<open>
  \<^verbatim>\<open>var cis = []CI{&azure{}, &buildkite{}, &gitlab{}}\<close>: the three provider variants,
  in the order of the slice. The \<^verbatim>\<open>identify()\<close> methods of the variants probe the
  process environment and are not part of the sources at hand, so what each of them
  answers is a parameter. A \<^verbatim>\<open>nil\<close> interface value is \<^const>\<open>None\<close>.
\<close>

datatype provider = Azure | Buildkite | Gitlab

definition cis :: "provider list" where
  "cis = [Azure, Buildkite, Gitlab]"

fun Identify_loop :: "(provider \<Rightarrow> bool) \<Rightarrow> provider list \<Rightarrow> provider option" where
  "Identify_loop identify [] = None"
| "Identify_loop identify (ci # rest) =
     (if identify ci then Some ci else Identify_loop identify rest)"

definition Identify :: "(provider \<Rightarrow> bool) \<Rightarrow> provider option" where
  "Identify identify = Identify_loop identify cis"

text \<open>
  \<^verbatim>\<open>CommonCI.BuildName\<close> (lines 58 to 61) returns
  \<^verbatim>\<open>strings.ToLower(filepath.Base(dir))\<close> for the working directory \<open>dir\<close>.
  \<^verbatim>\<open>strings.ToLower\<close> maps the bytes \<open>A\<close> to \<open>Z\<close> to \<open>a\<close> to \<open>z\<close> when the string is
  ASCII only; otherwise it maps runes through the Unicode tables, which are taken as the
  parameter \<open>unicode_lower\<close>. \<^verbatim>\<open>filepath.Base\<close> is the one of Unix: the last element
  of the path, trailing slashes removed; \<open>.\<close> for the empty path and \<open>/\<close> for a path of
  slashes only. \<^verbatim>\<open>os.Getwd\<close> is the parameter \<open>cwd\<close>.
\<close>

definition isASCII :: "string \<Rightarrow> bool" where
  "isASCII s = (\<forall>c\<in>set s. (of_char c :: nat) < 128)"

definition is_upper :: "char \<Rightarrow> bool" where
  "is_upper c = (CHR ''A'' \<le> c \<and> c \<le> CHR ''Z'')"

definition lower :: "char \<Rightarrow> char" where
  "lower c = (if is_upper c then char_of (of_char c + (32::nat)) else c)"

definition ToLower :: "(string \<Rightarrow> string) \<Rightarrow> string \<Rightarrow> string" where
  "ToLower unicode_lower s = (if isASCII s then map lower s else unicode_lower s)"

definition Base :: "string \<Rightarrow> string" where
  "Base path =
     (if path = [] then ''.''
      else
        (let stripped = rev (dropWhile (\<lambda>c. c = CHR ''/'') (rev path));
             last_element = rev (takeWhile (\<lambda>c. c \<noteq> CHR ''/'') (rev stripped))
         in if last_element = [] then ''/'' else last_element))"

definition CommonCI_BuildName :: "(string \<Rightarrow> string) \<Rightarrow> string \<Rightarrow> string" where
  "CommonCI_BuildName unicode_lower cwd = ToLower unicode_lower (Base cwd)"

text \<open>
  Modelled from the spec: the normalisation of the build name done by the promotion
  orchestrator, whose file (\<^verbatim>\<open>promote.go\<close>) is not among the sources; only its test is.
  The spec says: the normalized build name is lowercase with \<open>_\<close> rewritten to \<open>-\<close>, and
  this value, not the raw CI value, is used to compute the destination path segment.
\<close>

definition rewrite_underscores :: "string \<Rightarrow> string" where
  "rewrite_underscores s = map (\<lambda>c. if c = CHR ''_'' then CHR ''-'' else c) s"

definition normalized_build_name :: "(string \<Rightarrow> string) \<Rightarrow> string \<Rightarrow> string" where
  "normalized_build_name unicode_lower raw = rewrite_underscores (ToLower unicode_lower raw)"

text \<open>
  Modelled from the spec: step 3 of the gateway, the destination subdirectory
  \<open><configured path, default "">/<normalized build name>\<close>. The gateway's file is not
  among the sources.
\<close>

definition destination_path :: "string \<Rightarrow> string \<Rightarrow> string" where
  "destination_path configured name = configured @ ''/'' @ name"

section \<open>The promotion pipeline\<close>

text \<open>
  Modelled from the spec: the promotion orchestrator \<^verbatim>\<open>DoPromote\<close>, the credential
  resolver and the gateway to the GitOps repository. Their files are not among the
  sources; \<^verbatim>\<open>pkg/promote/promote_test.go\<close>, the test of \<^verbatim>\<open>DoPromote\<close>, is. Every
  definition of this section follows the spec's sections 3, 4.2, 4.3, 4.4, 6 and 7; the
  rows of the test's table are evaluated against it further down.

  Modelled from the spec: the error taxonomy of section 7, and the exit code of each kind
  from the table of section 4.4 and the list of section 6 (no error is exit code 0).
\<close>

datatype error_kind =
    ArgumentError | ConfigError | TargetNotFoundError | UnidentifiedBuildError
  | DescriptorNotFoundError | CredentialError | GitTransportError | FilesystemError

text \<open>
  Modelled from the spec: the exit code of each kind of failure, from the table of
  section 4.4 and the list of exit codes of section 6; no failure is exit code 0.
\<close>

fun exit_code :: "error_kind option \<Rightarrow> int" where
  "exit_code None = 0"
| "exit_code (Some ArgumentError) = -1"
| "exit_code (Some ConfigError) = -1"
| "exit_code (Some TargetNotFoundError) = -2"
| "exit_code (Some UnidentifiedBuildError) = -3"
| "exit_code (Some DescriptorNotFoundError) = -4"
| "exit_code (Some CredentialError) = -4"
| "exit_code (Some GitTransportError) = -4"
| "exit_code (Some FilesystemError) = -4"

text \<open>
  Modelled from the spec: the data model of section 3. An endpoint is a remote URL, a
  subdirectory path (empty when not configured) and an optional tag; credentials are a
  user, a private-key path and a password; a descriptor is a file name with its content,
  an opaque blob; a commit outcome is \<open>{attempted, hash, pushed}\<close>.
\<close>

record GitOpsEndpoint =
  ep_url :: string
  ep_path :: string
  ep_tag :: "string option"

text \<open>
  Modelled from the spec: GitCredentials of section 3, the resolved user, private-key
  path and password.
\<close>

record GitCredentials =
  cred_user :: string
  cred_key :: string
  cred_password :: "string option"

text \<open>
  Modelled from the spec: an entry of the DescriptorSet of section 3, a file name with its
  content; the set is the ordered sequence the file resolver produced.
\<close>

record descriptor =
  d_name :: string
  d_content :: string

type_synonym DescriptorSet = "descriptor list"

text \<open>
  Modelled from the spec: CommitOutcome of section 3. The hash of a commit is its position
  in the history of the repository.
\<close>

record CommitOutcome =
  attempted :: bool
  hash :: "nat option"
  pushed :: bool

text \<open>
  Modelled from the spec: what the gateway needs of a git repository. A tree maps paths to
  contents; a repository is its list of commits, newest first, and the HEAD tree is the
  tree of the newest one. A commit carries the author identity as configured (name and
  email, each absent when the default is used) and the message, which identifies the
  promoted build name and commit hash.
\<close>

type_synonym tree = "(string \<times> string) list"

text \<open>
  Modelled from the spec: a commit of the GitOps repository (step 6 of section 4.3): the
  tree it records, the author identity and the message.
\<close>

record git_commit =
  c_tree :: tree
  c_author :: "string option \<times> string option"
  c_message :: "string \<times> string"

type_synonym repository = "git_commit list"

text \<open>
  Modelled from the spec: the current HEAD tree of step 5. A repository without a commit
  has the empty tree.
\<close>

definition head_tree :: "repository \<Rightarrow> tree" where
  "head_tree repo = (case repo of [] \<Rightarrow> [] | c # _ \<Rightarrow> c_tree c)"

text \<open>
  Modelled from the spec: step 4 of the gateway writes every entry of the descriptor set
  into the destination directory, overwriting existing files and leaving the other files
  untouched. Step 5 compares the staged tree with the HEAD tree: the diff is empty when
  both give the same content for every path.
\<close>

definition write_all :: "string \<Rightarrow> DescriptorSet \<Rightarrow> tree \<Rightarrow> tree" where
  "write_all dest ds t =
     fold (\<lambda>d. AList.update (dest @ ''/'' @ d_name d) (d_content d)) ds t"

text \<open>
  Modelled from the spec: the diff of step 5 between the staged tree and the HEAD tree is
  empty.
\<close>

definition tree_equal :: "tree \<Rightarrow> tree \<Rightarrow> bool" where
  "tree_equal a b = (\<forall>p\<in>set (map fst a @ map fst b). map_of a p = map_of b p)"

text \<open>
  Modelled from the spec: the seven steps of section 4.3, each a potential point of
  failure. The world of the gateway holds the remote repositories by URL, which key files
  can be read, and for every step whether it fails in this run for a reason outside the
  model (transport, file system). A result holds the outcome, the steps that completed, in
  order, and the remote repositories as the run leaves them.
\<close>

datatype step = Clone | Authenticate | ComputePath | Write | Stage | Commit | Push

text \<open>
  Modelled from the spec: what a run of the gateway meets: the remote repository behind
  each URL if there is one, which key files can be read, and which steps fail for a
  reason outside the model.
\<close>

record gateway_world =
  remotes :: "string \<Rightarrow> repository option"
  key_readable :: "string \<Rightarrow> bool"
  fault :: "step \<Rightarrow> bool"

text \<open>
  Modelled from the spec: what a run of the gateway leaves: a failure kind or the
  CommitOutcome, the completed steps in order, and the remote repositories.
\<close>

record gateway_result =
  outcome :: "error_kind + CommitOutcome"
  trace :: "step list"
  remotes_after :: "string \<Rightarrow> repository option"

text \<open>
  Modelled from the spec: a failed step ends the run with its error kind and nothing
  retried; the remote repositories are as before.
\<close>

definition stopped ::
  "gateway_world \<Rightarrow> error_kind \<Rightarrow> step list \<Rightarrow> gateway_result" where
  "stopped w e completed = \<lparr>outcome = Inl e, trace = completed, remotes_after = remotes w\<rparr>"

text \<open>
  Modelled from the spec: the outcome of the successful no-op of step 5: no commit
  attempted, no hash, nothing pushed.
\<close>

definition no_op :: CommitOutcome where
  "no_op = \<lparr>attempted = False, hash = None, pushed = False\<rparr>"

text \<open>
  Modelled from the spec: the gateway's \<open>Promote(endpoint, credentials, descriptorSet,
  destinationPath, authorIdentity)\<close> of section 4.3, step by step: (1) clone the endpoint
  URL, which fails when there is no such repository; (2) authenticate with the resolved
  key, a missing or unreadable key file being fatal; (3) compute the destination
  subdirectory from the configured path and the path segment passed in; (4) write the
  descriptor set; (5) stage and compare with the HEAD tree, and stop with success when
  nothing differs; (6) commit; (7) push, which is the only step that changes the remote.
  The kinds of error are those of section 7.
\<close>

definition Promote ::
  "gateway_world \<Rightarrow> GitOpsEndpoint \<Rightarrow> GitCredentials \<Rightarrow> DescriptorSet \<Rightarrow> string
     \<Rightarrow> string option \<times> string option \<Rightarrow> string \<times> string \<Rightarrow> gateway_result" where
  "Promote w endpoint credentials descriptorSet destinationPath authorIdentity message =
     (case (if fault w Clone then None else remotes w (ep_url endpoint)) of
        None \<Rightarrow> stopped w GitTransportError []
      | Some repo \<Rightarrow>
          if fault w Authenticate then stopped w GitTransportError [Clone]
          else if \<not> key_readable w (cred_key credentials) then stopped w CredentialError [Clone]
          else if fault w ComputePath then stopped w FilesystemError [Clone, Authenticate]
          else
            (let dest = destination_path (ep_path endpoint) destinationPath in
             if fault w Write then stopped w FilesystemError [Clone, Authenticate, ComputePath]
             else
               (let staged = write_all dest descriptorSet (head_tree repo) in
                if fault w Stage then
                  stopped w FilesystemError [Clone, Authenticate, ComputePath, Write]
                else if tree_equal staged (head_tree repo) then
                  \<lparr>outcome = Inr no_op,
                   trace = [Clone, Authenticate, ComputePath, Write, Stage],
                   remotes_after = remotes w\<rparr>
                else if fault w Commit then
                  stopped w FilesystemError [Clone, Authenticate, ComputePath, Write, Stage]
                else
                  (let pushed_repo =
                         \<lparr>c_tree = staged, c_author = authorIdentity, c_message = message\<rparr> # repo
                   in if fault w Push then
                        stopped w GitTransportError
                          [Clone, Authenticate, ComputePath, Write, Stage, Commit]
                      else
                        \<lparr>outcome = Inr \<lparr>attempted = True, hash = Some (length pushed_repo),
                                         pushed = True\<rparr>,
                         trace = [Clone, Authenticate, ComputePath, Write, Stage, Commit, Push],
                         remotes_after = (remotes w)(ep_url endpoint \<mapsto> pushed_repo)\<rparr>))))"

text \<open>
  Modelled from the spec: with \<open>--out\<close> the files go to a local path and steps 1, 2, 6
  and 7 of the gateway are skipped: no network, no commit, no push.
\<close>

definition PromoteLocal :: "gateway_world \<Rightarrow> gateway_result" where
  "PromoteLocal w =
     (if fault w ComputePath then stopped w FilesystemError []
      else if fault w Write then stopped w FilesystemError [ComputePath]
      else if fault w Stage then stopped w FilesystemError [ComputePath, Write]
      else \<lparr>outcome = Inr no_op, trace = [ComputePath, Write, Stage],
             remotes_after = remotes w\<rparr>)"

text \<open>
  Modelled from the spec: the inputs of the orchestrator, which come from collaborators
  outside the core (section 1): the outcome of parsing the command line with the flags of
  section 6 (help and version requests are recognised before a malformed line is), the
  outcome of loading the configuration file with its \<open>gitops\<close> and \<open>git\<close> sections, and
  the CI metadata \<open>Commit()\<close>, \<open>Branch()\<close>, \<open>BuildName()\<close>. The flag \<open>--config\<close> is left
  out: the spec gives no exit code for it.
\<close>

record promote_args =
  arg_target :: string
  arg_tag :: "string option"
  arg_url :: "string option"
  arg_path :: "string option"
  arg_user :: "string option"
  arg_key :: "string option"
  arg_password :: "string option"
  arg_out :: "string option"

text \<open>
  Modelled from the spec: the outcome of the state ParseArguments of section 4.4: a help
  or version request, a malformed command line, or the parsed arguments.
\<close>

datatype parse_result = Help | Version | Malformed | Parsed promote_args

text \<open>
  Modelled from the spec: the \<open>git\<close> section of the configuration file (section 6):
  name, email, user, key and password, each optional.
\<close>

record git_section =
  git_name :: "string option"
  git_email :: "string option"
  git_user :: "string option"
  git_key :: "string option"
  git_password :: "string option"

text \<open>
  Modelled from the spec: the configuration file of section 6: the \<open>gitops\<close> mapping of
  target names to endpoints, in the order of the file, and the \<open>git\<close> section.
\<close>

record config =
  gitops :: "(string \<times> GitOpsEndpoint) list"
  git :: git_section

text \<open>
  Modelled from the spec: the outcome of the state LoadConfig of section 4.4: the file
  fails schema validation, or it is loaded (an empty file as the empty configuration).
\<close>

datatype config_result = Invalid | Loaded config

text \<open>
  Modelled from the spec: the answers of the CI metadata collaborator of section 6:
  \<open>Commit()\<close>, \<open>Branch()\<close> and the raw \<open>BuildName()\<close>.
\<close>

record ci_metadata =
  ci_Commit :: string
  ci_Branch :: string
  ci_BuildName :: string

text \<open>
  Modelled from the spec: one invocation of \<open>promote <target> [flags]\<close>, as the
  collaborators hand it to the orchestrator.
\<close>

record invocation =
  args :: parse_result
  cfg :: config_result
  ci :: ci_metadata

text \<open>
  Modelled from the spec: what a run reads from its surroundings: the world of the
  gateway, the file system as seen by the file resolver (directory listings and file
  contents), the order in which the runtime ranges over the resolver's map, the home
  directory, and the Unicode tables of \<^verbatim>\<open>strings.ToLower\<close>.
\<close>

record environment =
  env_world :: gateway_world
  env_ReadDir :: "string \<Rightarrow> os_error + file_info list"
  env_ReadFile :: "string \<Rightarrow> string"
  env_range_of :: range_order
  env_home :: string
  env_unicode_lower :: "string \<Rightarrow> string"

text \<open>
  Modelled from the spec: the credential resolver of section 4.2. Precedence is command
  line flag, then configuration file, then the default \<open>~/.ssh/id_rsa\<close> with user
  \<open>git\<close>; \<open>~\<close> is expanded to the home directory. Resolution reads no file: a missing key
  shows only when the gateway authenticates.
\<close>

definition expand_home :: "string \<Rightarrow> string \<Rightarrow> string" where
  "expand_home h p = (if HasPrefix p ''~'' then h @ drop 1 p else p)"

text \<open>
  Modelled from the spec: the credential resolver of section 4.2, one credential set per
  invocation, in the precedence command line flag, configuration file, default.
\<close>

definition resolve_credentials :: "string \<Rightarrow> promote_args \<Rightarrow> git_section \<Rightarrow> GitCredentials" where
  "resolve_credentials h a g =
     \<lparr>cred_user = (case arg_user a of Some u \<Rightarrow> u
                   | None \<Rightarrow> (case git_user g of Some u \<Rightarrow> u | None \<Rightarrow> ''git'')),
      cred_key = expand_home h
                  (case arg_key a of Some k \<Rightarrow> k
                   | None \<Rightarrow> (case git_key g of Some k \<Rightarrow> k | None \<Rightarrow> ''~/.ssh/id_rsa'')),
      cred_password = (case arg_password a of Some p \<Rightarrow> Some p | None \<Rightarrow> git_password g)\<rparr>"

text \<open>
  Modelled from the spec: the flags \<open>--url\<close> and \<open>--path\<close> override the repository URL
  and the destination subdirectory of the target's endpoint (section 6).
\<close>

definition effective_endpoint :: "promote_args \<Rightarrow> GitOpsEndpoint \<Rightarrow> GitOpsEndpoint" where
  "effective_endpoint a ep =
     ep\<lparr>ep_url := (case arg_url a of Some u \<Rightarrow> u | None \<Rightarrow> ep_url ep),
        ep_path := (case arg_path a of Some p \<Rightarrow> p | None \<Rightarrow> ep_path ep)\<rparr>"

text \<open>
  Modelled from the spec: the terminal value of the pipeline. The exit code is computed
  from the kind of failure at the outermost boundary only (section 7).
\<close>

record promotion_result =
  failure :: "error_kind option"
  steps :: "step list"
  remotes_final :: "string \<Rightarrow> repository option"

text \<open>
  Modelled from the spec: a run that ends in the orchestrator before the gateway is
  called: no step of the gateway runs and the remote repositories are as before.
\<close>

definition finish :: "environment \<Rightarrow> error_kind option \<Rightarrow> promotion_result" where
  "finish env f = \<lparr>failure = f, steps = [], remotes_final = remotes (env_world env)\<rparr>"

text \<open>
  Modelled from the spec: a run that ends in the gateway: its failure kind, if any, is
  the run's, its steps and remote repositories are the run's.
\<close>

definition of_gateway :: "gateway_result \<Rightarrow> promotion_result" where
  "of_gateway r =
     \<lparr>failure = (case outcome r of Inl e \<Rightarrow> Some e | Inr _ \<Rightarrow> None),
      steps = trace r, remotes_final = remotes_after r\<rparr>"

text \<open>
  Modelled from the spec: the state ResolveDescriptors of section 4.4. The descriptor
  directory is \<open>k8s\<close> (scenario C of section 8); the file resolver is the one of
  \<^verbatim>\<open>pkg/file/file.go\<close> above. A directory that cannot be read is a file system error,
  an empty result is the failure "no descriptors".
\<close>

definition descriptor_dir :: string where
  "descriptor_dir = ''k8s''"

text \<open>
  Modelled from the spec: the state ResolveDescriptors of section 4.4, on top of the file
  resolver of the source: a directory-read error is a file system failure, zero entries
  are the failure "no descriptors", and the descriptor set is the resolved files with
  their contents.
\<close>

definition ResolveDescriptors :: "environment \<Rightarrow> string \<Rightarrow> error_kind + DescriptorSet" where
  "ResolveDescriptors env target =
     (case FindFilesForTarget (env_range_of env) (env_ReadDir env) descriptor_dir target of
        Inl err \<Rightarrow> Inl FilesystemError
      | Inr files \<Rightarrow>
          if files = [] then Inl DescriptorNotFoundError
          else Inr (map (\<lambda>f. \<lparr>d_name = Name f, d_content = env_ReadFile env (Name f)\<rparr>) files))"

text \<open>
  Modelled from the spec: the state PrepareCredentials / GatewayPromote of section 4.4.
  The path segment handed to the gateway is the normalized build name. The tag of
  \<open>--tag\<close> only changes a value substituted inside the descriptors' content, which is
  opaque here, so it does not appear.
\<close>

definition GatewayPromote ::
  "environment \<Rightarrow> invocation \<Rightarrow> promote_args \<Rightarrow> config \<Rightarrow> GitOpsEndpoint \<Rightarrow> DescriptorSet
     \<Rightarrow> gateway_result" where
  "GatewayPromote env call a c ep descriptorSet =
     (let name = normalized_build_name (env_unicode_lower env) (ci_BuildName (ci call))
      in case arg_out a of
           Some out \<Rightarrow> PromoteLocal (env_world env)
         | None \<Rightarrow>
             Promote (env_world env) (effective_endpoint a ep)
               (resolve_credentials (env_home env) a (git c))
               descriptorSet name
               (git_name (git c), git_email (git c))
               (name, ci_Commit (ci call)))"

text \<open>
  Modelled from the spec: the state machine of section 4.4, its states in their fixed
  sequence: ParseArguments, LoadConfig, ResolveTarget, VerifyBuildIdentity,
  ResolveDescriptors, PrepareCredentials / GatewayPromote, Done. \<open>DoPromote\<close> is the exit
  code of the run.
\<close>

definition DoPromote_run :: "environment \<Rightarrow> invocation \<Rightarrow> promotion_result" where
  "DoPromote_run env call =
     (case args call of
        Help \<Rightarrow> finish env None
      | Version \<Rightarrow> finish env None
      | Malformed \<Rightarrow> finish env (Some ArgumentError)
      | Parsed a \<Rightarrow>
          (case cfg call of
             Invalid \<Rightarrow> finish env (Some ConfigError)
           | Loaded c \<Rightarrow>
               (case map_of (gitops c) (arg_target a) of
                  None \<Rightarrow> finish env (Some TargetNotFoundError)
                | Some ep \<Rightarrow>
                    if ci_Commit (ci call) = [] \<or> ci_Branch (ci call) = [] then
                      finish env (Some UnidentifiedBuildError)
                    else
                      (case ResolveDescriptors env (arg_target a) of
                         Inl e \<Rightarrow> finish env (Some e)
                       | Inr descriptorSet \<Rightarrow>
                           of_gateway (GatewayPromote env call a c ep descriptorSet)))))"

text \<open>
  Modelled from the spec: the exit code of \<open>DoPromote\<close>, computed from the kind of
  failure at the outermost boundary.
\<close>

definition DoPromote :: "environment \<Rightarrow> invocation \<Rightarrow> int" where
  "DoPromote env call = exit_code (failure (DoPromote_run env call))"

text \<open>
  Modelled from the spec: the seven steps of the gateway in their order (section 4.3).
  This and the next definitions name conditions that the statements below use.
\<close>

definition all_steps :: "step list" where
  "all_steps = [Clone, Authenticate, ComputePath, Write, Stage, Commit, Push]"

text \<open>
  Modelled from the spec: the completed steps of a run are an initial part of the seven
  steps in their order.
\<close>

definition in_order :: "step list \<Rightarrow> bool" where
  "in_order tr = (take (length tr) all_steps = tr)"

text \<open>
  Modelled from the spec: steps 1 to 5 of the gateway meet no failure in this world.
\<close>

definition ready :: "gateway_world \<Rightarrow> GitCredentials \<Rightarrow> bool" where
  "ready w credentials =
     (\<not> fault w Clone \<and> \<not> fault w Authenticate \<and> key_readable w (cred_key credentials)
      \<and> \<not> fault w ComputePath \<and> \<not> fault w Write \<and> \<not> fault w Stage)"

text \<open>
  Modelled from the spec: the invocation passes the states ParseArguments, LoadConfig,
  ResolveTarget and VerifyBuildIdentity of section 4.4.
\<close>

definition reaches_descriptors ::
  "invocation \<Rightarrow> promote_args \<Rightarrow> config \<Rightarrow> GitOpsEndpoint \<Rightarrow> bool" where
  "reaches_descriptors call a c ep =
     (args call = Parsed a \<and> cfg call = Loaded c
      \<and> map_of (gitops c) (arg_target a) = Some ep
      \<and> ci_Commit (ci call) \<noteq> [] \<and> ci_Branch (ci call) \<noteq> [])"

text \<open>
  Modelled from the spec: the state ResolveDescriptors or the state PrepareCredentials /
  GatewayPromote fails.
\<close>

definition gateway_fails ::
  "environment \<Rightarrow> invocation \<Rightarrow> promote_args \<Rightarrow> config \<Rightarrow> GitOpsEndpoint \<Rightarrow> bool" where
  "gateway_fails env call a c ep =
     (case ResolveDescriptors env (arg_target a) of
        Inl e \<Rightarrow> True
      | Inr ds \<Rightarrow> isl (outcome (GatewayPromote env call a c ep ds)))"

text \<open>
  Modelled from the spec: the destination subdirectory of an invocation, step 3 of the
  gateway applied to the endpoint in force and to the build name of the CI metadata:
  the configured path, then the normalized build name as the last segment.
\<close>

definition destination_of ::
  "environment \<Rightarrow> invocation \<Rightarrow> promote_args \<Rightarrow> GitOpsEndpoint \<Rightarrow> string" where
  "destination_of env call a ep =
     destination_path (ep_path (effective_endpoint a ep))
       (normalized_build_name (env_unicode_lower env) (ci_BuildName (ci call)))"

text \<open>
  Modelled from the spec: the path at which step 4 of the gateway writes a descriptor,
  its file name inside the destination directory.
\<close>

definition written_path :: "string \<Rightarrow> descriptor \<Rightarrow> string" where
  "written_path dest d = dest @ ''/'' @ d_name d"

text \<open>
  Modelled from the spec: the surroundings of a second run: everything as in the first,
  the remote repositories as the first run left them.
\<close>

definition after_run :: "environment \<Rightarrow> invocation \<Rightarrow> environment" where
  "after_run env call =
     env\<lparr>env_world := (env_world env)\<lparr>remotes := remotes_final (DoPromote_run env call)\<rparr>\<rparr>"

text \<open>
  The fixture of \<^verbatim>\<open>TestDoPromote\<close> (\<^verbatim>\<open>pkg/promote/promote_test.go\<close>): two remote
  repositories with one commit each (\<^verbatim>\<open>InitRepo\<close>), generated keys under
  \<open>~/.ssh\<close> and \<open>~/other\<close>, a \<open>k8s\<close> directory holding \<open>descriptor.yaml\<close> when the row
  has a descriptor, and the configurations, flags and CI variables of the rows.
  \<open>commits_on\<close> is the test's \<^verbatim>\<open>CountCommits\<close>: the commits beyond the first.
\<close>

definition initial_repo :: repository where
  "initial_repo =
     [\<lparr>c_tree = [(''file'', ''test'')], c_author = (None, Some ''test@example.com''),
       c_message = (''Test'', [])\<rparr>]"

definition test_world :: gateway_world where
  "test_world =
     \<lparr>remotes = (\<lambda>u. if u = ''git-repo'' \<or> u = ''other-repo'' then Some initial_repo else None),
      key_readable = (\<lambda>k. k = ''/home/.ssh/id_rsa'' \<or> k = ''/home/other/id_rsa''),
      fault = (\<lambda>s. False)\<rparr>"

definition test_env :: "bool \<Rightarrow> environment" where
  "test_env with_descriptor =
     \<lparr>env_world = test_world,
      env_ReadDir = (\<lambda>d. if d = ''k8s'' \<and> with_descriptor then Inr [entry ''descriptor.yaml'']
                     else Inl ErrNotExist),
      env_ReadFile = (\<lambda>n. ''kind: ConfigMap''),
      env_range_of = (\<lambda>m. m),
      env_home = ''/home'',
      env_unicode_lower = (\<lambda>s. s)\<rparr>"

definition no_flags :: "string \<Rightarrow> promote_args" where
  "no_flags target =
     \<lparr>arg_target = target, arg_tag = None, arg_url = None, arg_path = None, arg_user = None,
      arg_key = None, arg_password = None, arg_out = None\<rparr>"

definition no_git :: git_section where
  "no_git = \<lparr>git_name = None, git_email = None, git_user = None, git_key = None,
             git_password = None\<rparr>"

definition empty_config :: config where
  "empty_config = \<lparr>gitops = [], git = no_git\<rparr>"

definition dummy_config :: "git_section \<Rightarrow> config" where
  "dummy_config g =
     \<lparr>gitops = [(''dummy'', \<lparr>ep_url = ''git-repo'', ep_path = [], ep_tag = None\<rparr>)], git = g\<rparr>"

definition no_ci :: ci_metadata where
  "no_ci = \<lparr>ci_Commit = [], ci_Branch = [], ci_BuildName = []\<rparr>"

definition gitlab_ci :: "string \<Rightarrow> ci_metadata" where
  "gitlab_ci project = \<lparr>ci_Commit = ''abc123'', ci_Branch = ''master'', ci_BuildName = project\<rparr>"

definition commits_on :: "string \<Rightarrow> promotion_result \<Rightarrow> nat" where
  "commits_on u r = (case remotes_final r u of None \<Rightarrow> 0 | Some repo \<Rightarrow> length repo - 1)"

definition ok_call :: invocation where
  "ok_call =
     \<lparr>args = Parsed (no_flags ''dummy''), cfg = Loaded (dummy_config no_git),
      ci = gitlab_ci ''dummy''\<rparr>"

definition normalized_call :: invocation where
  "normalized_call =
     \<lparr>args = Parsed (no_flags ''dummy''), cfg = Loaded (dummy_config no_git),
      ci = gitlab_ci ''dummy_repo''\<rparr>"

definition missing_target_call :: invocation where
  "missing_target_call =
     \<lparr>args = Parsed (no_flags ''dummy''), cfg = Loaded empty_config, ci = no_ci\<rparr>"

definition dummy_endpoint :: GitOpsEndpoint where
  "dummy_endpoint = \<lparr>ep_url = ''git-repo'', ep_path = [], ep_tag = None\<rparr>"

definition default_credentials :: GitCredentials where
  "default_credentials = resolve_credentials ''/home'' (no_flags ''dummy'') no_git"

definition one_descriptor :: DescriptorSet where
  "one_descriptor = [\<lparr>d_name = ''descriptor.yaml'', d_content = ''kind: ConfigMap''\<rparr>]"

definition promoted_repo :: repository where
  "promoted_repo =
     \<lparr>c_tree = [(''file'', ''test''), (''/dummy/descriptor.yaml'', ''kind: ConfigMap'')],
      c_author = (None, None), c_message = (''dummy'', ''abc123'')\<rparr> # initial_repo"

definition promoted_world :: gateway_world where
  "promoted_world = test_world\<lparr>remotes := (remotes test_world)(''git-repo'' \<mapsto> promoted_repo)\<rparr>"

section \<open>Properties of the file resolver\<close>

lemma HasSuffix_iff: "HasSuffix s suf \<longleftrightarrow> (\<exists>p. s = p @ suf)"
proof
  assume "HasSuffix s suf"
  then have "s = take (length s - length suf) s @ suf"
    by (metis HasSuffix_def append_take_drop_id)
  then show "\<exists>p. s = p @ suf" ..
next
  assume "\<exists>p. s = p @ suf"
  then show "HasSuffix s suf" by (auto simp: HasSuffix_def)
qed

lemma HasPrefix_single: "HasPrefix s [c] \<longleftrightarrow> (\<exists>t. s = c # t)"
  by (cases s) (auto simp: HasPrefix_def)

lemma Contains_single: "Contains s [c] \<longleftrightarrow> c \<in> set s"
  by (induction s) (auto simp: HasPrefix_single)

lemma target_suffix_dash: "HasSuffix n (target_suffix target suffix) \<Longrightarrow> Contains n ''-''"
  by (auto simp: HasSuffix_iff target_suffix_def Contains_single)

lemma target_suffix_suffix: "HasSuffix n (target_suffix target suffix) \<Longrightarrow> HasSuffix n suffix"
  unfolding HasSuffix_iff target_suffix_def by (metis append.assoc)

lemma scan_step:
  "scan (info # files) target suffix m =
     scan files target suffix
       (if candidate target suffix (Name info) then AList.update (Name info) info m else m)"
  by (simp add: candidate_def)

lemma scan_keys:
  "fst ` set (scan files target suffix m) =
     fst ` set m \<union> {Name f | f. f \<in> set files \<and> candidate target suffix (Name f)}"
proof (induction files arbitrary: m)
  case Nil
  show ?case by simp
next
  case (Cons info files)
  show ?case
    unfolding scan_step Cons.IH by (auto simp: dom_update)
qed

lemma scan_distinct:
  "distinct (map fst m) \<Longrightarrow> distinct (map fst (scan files target suffix m))"
proof (induction files arbitrary: m)
  case Nil
  then show ?case by simp
next
  case (Cons info files)
  show ?case
    unfolding scan_step by (rule Cons.IH) (simp add: Cons.prems distinct_update)
qed

lemma set_update_subset: "set (AList.update k v al) \<subseteq> insert (k, v) (set al)"
  by (induction al) auto

lemma scan_entries:
  "(k, v) \<in> set (scan files target suffix m) \<Longrightarrow>
     (k, v) \<in> set m \<or> (v \<in> set files \<and> k = Name v \<and> candidate target suffix k)"
proof (induction files arbitrary: m)
  case Nil
  then show ?case by simp
next
  case (Cons info files)
  from Cons.prems have
    "(k, v) \<in> set (if candidate target suffix (Name info) then AList.update (Name info) info m else m)
       \<or> (v \<in> set files \<and> k = Name v \<and> candidate target suffix k)"
    unfolding scan_step by (rule Cons.IH)
  then show ?case
    using set_update_subset [of "Name info" info m] by (auto split: if_splits)
qed

lemma select_filter:
  "select kvs m target suffix result =
     result @ map snd (filter (\<lambda>kv. accepted m target suffix (fst kv)) kvs)"
  by (induction kvs m target suffix result rule: select.induct)
     (simp_all add: accepted_def Let_def)

lemma sort_by_name_unique:
  assumes "mset xs = mset ys" and "distinct (map Name xs)"
  shows "sort_key Name xs = sort_key Name ys"
proof -
  let ?a = "sort_key Name xs" and ?b = "sort_key Name ys"
  have m: "mset (map Name xs) = mset (map Name ys)"
    using assms(1) by (metis mset_map)
  then have dy: "distinct (map Name ys)"
    using assms(2) by (metis mset_eq_imp_distinct_iff)
  have "distinct (map Name ?a)" "distinct (map Name ?b)"
    using assms(2) dy by (simp_all add: distinct_map)
  moreover have "sorted (map Name ?a)" "sorted (map Name ?b)"
    by simp_all
  moreover have "set (map Name ?a) = set (map Name ?b)"
    using m by (simp add: mset_eq_setD[OF assms(1)])
  ultimately have "map Name ?a = map Name ?b"
    by (meson sorted_distinct_set_unique)
  moreover have "inj_on Name (set ?a \<union> set ?b)"
    using assms(2) mset_eq_setD[OF assms(1)] by (simp add: distinct_map)
  ultimately show ?thesis
    by (simp add: inj_on_map_eq_map)
qed

lemma enumerates_set: "enumerates rng \<Longrightarrow> set (rng m) = set m"
  unfolding enumerates_def by (metis mset_eq_setD)

lemma scan_empty_name: "(k, v) \<in> set (scan files target suffix []) \<Longrightarrow> k = Name v"
  using scan_entries [of k v files target suffix "[]"] by simp

text \<open>What the resolver returns on a readable directory.\<close>

lemma filesForTarget_Inr:
  assumes "ReadDir dir = Inr files"
  shows "filesForTarget rng ReadDir dir target filetype suffix =
           Inr (sort_key Name (map snd (filter
             (\<lambda>kv. accepted (scan files target suffix []) target suffix (fst kv))
             (rng (scan files target suffix [])))))"
  using assms by (simp add: filesForTarget_def select_filter Let_def)

lemma result_set:
  assumes "enumerates rng" and "ReadDir dir = Inr files"
    and "filesForTarget rng ReadDir dir target filetype suffix = Inr res"
  shows "set res = {v. (Name v, v) \<in> set (scan files target suffix [])
                     \<and> accepted (scan files target suffix []) target suffix (Name v)}"
proof -
  let ?m = "scan files target suffix []"
  let ?p = "\<lambda>kv. accepted ?m target suffix (fst kv)"
  have "res = sort_key Name (map snd (filter ?p (rng ?m)))"
    using assms(3) filesForTarget_Inr [of ReadDir dir files rng target filetype suffix, OF assms(2)]
    by simp
  then have "set res = snd ` {kv \<in> set (rng ?m). ?p kv}"
    by simp
  also have "\<dots> = snd ` {kv \<in> set ?m. ?p kv}"
    by (simp only: enumerates_set [OF assms(1)])
  also have "\<dots> = {v. (Name v, v) \<in> set ?m \<and> accepted ?m target suffix (Name v)}"
  proof (intro set_eqI iffI)
    fix v assume "v \<in> snd ` {kv \<in> set ?m. ?p kv}"
    then obtain k where "(k, v) \<in> set ?m" "accepted ?m target suffix k"
      by auto
    moreover from this have "k = Name v"
      by (simp add: scan_empty_name)
    ultimately show "v \<in> {v. (Name v, v) \<in> set ?m \<and> accepted ?m target suffix (Name v)}"
      by simp
  next
    fix v assume "v \<in> {v. (Name v, v) \<in> set ?m \<and> accepted ?m target suffix (Name v)}"
    then have "(Name v, v) \<in> {kv \<in> set ?m. ?p kv}"
      by simp
    then show "v \<in> snd ` {kv \<in> set ?m. ?p kv}"
      by (rule image_eqI [rotated]) simp
  qed
  finally show ?thesis .
qed

lemma distinct_map_sort_key: "distinct (map f (sort_key g ys)) \<longleftrightarrow> distinct (map f ys)"
  by (simp add: distinct_map)

lemma result_distinct:
  assumes "enumerates rng" and "ReadDir dir = Inr files"
    and "filesForTarget rng ReadDir dir target filetype suffix = Inr res"
  shows "distinct (map Name res)"
proof -
  let ?m = "scan files target suffix []"
  let ?p = "\<lambda>kv. accepted ?m target suffix (fst kv)"
  let ?ys = "map snd (filter ?p (rng ?m))"
  have "distinct (map fst ?m)"
    by (rule scan_distinct) simp
  moreover have "mset (map fst (rng ?m)) = mset (map fst ?m)"
    using assms(1) by (simp add: enumerates_def)
  ultimately have "distinct (map fst (rng ?m))"
    by (metis mset_eq_imp_distinct_iff)
  then have "distinct (map fst (filter ?p (rng ?m)))"
    by (rule distinct_map_filter)
  moreover have "map fst (filter ?p (rng ?m)) = map Name ?ys"
    using enumerates_set [OF assms(1), of ?m] by (auto dest: scan_empty_name)
  ultimately have "distinct (map Name ?ys)"
    by simp
  then have "distinct (map Name (sort_key Name ?ys))"
    by (simp only: distinct_map_sort_key)
  then show ?thesis
    using assms(3) filesForTarget_Inr [of ReadDir dir files rng target filetype suffix, OF assms(2)]
    by simp
qed

lemma key_in_scan:
  assumes "f \<in> set files" and "candidate target suffix (Name f)"
  shows "\<exists>v. (Name f, v) \<in> set (scan files target suffix []) \<and> Name v = Name f"
proof -
  have "Name f \<in> fst ` set (scan files target suffix [])"
    unfolding scan_keys using assms by auto
  then obtain v where "(Name f, v) \<in> set (scan files target suffix [])"
    by force
  then show ?thesis
    using scan_empty_name by metis
qed

lemma readable_Inr:
  "ReadDir dir = Inr files \<Longrightarrow> \<exists>res. filesForTarget rng ReadDir dir target filetype suffix = Inr res"
  by (simp add: filesForTarget_def Let_def)

lemma Inr_readable:
  "filesForTarget rng ReadDir dir target filetype suffix = Inr res \<Longrightarrow> \<exists>files. ReadDir dir = Inr files"
  by (cases "ReadDir dir") (simp_all add: filesForTarget_def)

lemma enumerates_rev: "enumerates rev"
  by (simp add: enumerates_def)

lemma enumerates_id: "enumerates (\<lambda>m. m)"
  by (simp add: enumerates_def)

lemmas resolver_eval =
  filesForTarget_def example_fs_def example_listing_def other_fs_def other_listing_def
  entry_def HasSuffix_def HasPrefix_def TrimSuffix_def target_suffix_def override_name_def
  sort_key_def

text \<open>
  Claim C2. On a readable directory the resolver returns entries of the listing, and
  among them: every name that ends with \<open>-<target><suffix>\<close>, with no further
  condition; and a name \<open>X<suffix>\<close> without a dash exactly when the override name
  \<open>X-<target><suffix>\<close> is not a key of the map of scanned candidates.
\<close>

theorem filesForTarget_override_shadows_default:
  assumes "enumerates rng" and "ReadDir dir = Inr files"
  shows "\<exists>res. filesForTarget rng ReadDir dir target filetype suffix = Inr res \<and>
     set res \<subseteq> set files \<and>
     (\<forall>f\<in>set files. HasSuffix (Name f) (target_suffix target suffix) \<longrightarrow>
        Name f \<in> Name ` set res) \<and>
     (\<forall>f\<in>set files. HasSuffix (Name f) suffix \<and> \<not> Contains (Name f) ''-'' \<longrightarrow>
        (Name f \<in> Name ` set res \<longleftrightarrow>
         override_name (Name f) target suffix \<notin> fst ` set (scan files target suffix [])))"
proof -
  let ?m = "scan files target suffix []"
  obtain res where res: "filesForTarget rng ReadDir dir target filetype suffix = Inr res"
    using readable_Inr [where ReadDir = ReadDir and dir = dir, OF assms(2)] by blast
  note rs = result_set [OF assms res]
  have sub: "set res \<subseteq> set files"
  proof
    fix v assume "v \<in> set res"
    then have "(Name v, v) \<in> set ?m" by (simp add: rs)
    then show "v \<in> set files" using scan_entries [of "Name v" v files target suffix "[]"] by simp
  qed
  have ovr: "Name f \<in> Name ` set res"
    if f: "f \<in> set files" and sfx: "HasSuffix (Name f) (target_suffix target suffix)" for f
  proof -
    have "candidate target suffix (Name f)"
      using sfx by (simp add: candidate_def target_suffix_suffix)
    then obtain v where v: "(Name f, v) \<in> set ?m" "Name v = Name f"
      using key_in_scan [OF f] by blast
    then have "v \<in> set res"
      using sfx by (simp add: rs accepted_def)
    then show ?thesis using v(2) by (metis imageI)
  qed
  have bare: "Name f \<in> Name ` set res \<longleftrightarrow> override_name (Name f) target suffix \<notin> fst ` set ?m"
    if f: "f \<in> set files" and sfx: "HasSuffix (Name f) suffix"
      and nodash: "\<not> Contains (Name f) ''-''" for f
  proof -
    have nots: "\<not> HasSuffix (Name f) (target_suffix target suffix)"
      using nodash target_suffix_dash by blast
    have acc: "accepted ?m target suffix (Name f) \<longleftrightarrow> override_name (Name f) target suffix \<notin> fst ` set ?m"
      using nots by (simp add: accepted_def map_of_eq_None_iff)
    have "candidate target suffix (Name f)"
      using sfx nodash by (simp add: candidate_def)
    then obtain v where v: "(Name f, v) \<in> set ?m" "Name v = Name f"
      using key_in_scan [OF f] by blast
    show ?thesis
    proof
      assume "Name f \<in> Name ` set res"
      then obtain w where "w \<in> set res" "Name w = Name f" by auto
      then have "accepted ?m target suffix (Name f)" by (simp add: rs)
      then show "override_name (Name f) target suffix \<notin> fst ` set ?m" by (simp add: acc)
    next
      assume "override_name (Name f) target suffix \<notin> fst ` set ?m"
      then have "v \<in> set res" using v by (simp add: rs acc)
      then show "Name f \<in> Name ` set res" using v(2) by (metis imageI)
    qed
  qed
  from res sub ovr bare show ?thesis by blast
qed

theorem filesForTarget_override_shadows_default_witness:
  "enumerates rev \<and> example_fs ''k8s'' = Inr example_listing \<and>
   (\<exists>res. filesForTarget rev example_fs ''k8s'' ''prod'' ''file'' ''.yaml'' = Inr res \<and>
      ''a-prod.yaml'' \<in> Name ` set res \<and> ''b.yaml'' \<in> Name ` set res \<and>
      ''a.yaml'' \<notin> Name ` set res)"
proof -
  have e: "enumerates rev" by (simp add: enumerates_def)
  have r: "example_fs ''k8s'' = Inr example_listing" by (simp add: example_fs_def)
  obtain res where res: "filesForTarget rev example_fs ''k8s'' ''prod'' ''file'' ''.yaml'' = Inr res"
    and ovr: "\<forall>f\<in>set example_listing. HasSuffix (Name f) (target_suffix ''prod'' ''.yaml'') \<longrightarrow>
        Name f \<in> Name ` set res"
    and bare: "\<forall>f\<in>set example_listing. HasSuffix (Name f) ''.yaml'' \<and> \<not> Contains (Name f) ''-'' \<longrightarrow>
        (Name f \<in> Name ` set res \<longleftrightarrow>
         override_name (Name f) ''prod'' ''.yaml'' \<notin> fst ` set (scan example_listing ''prod'' ''.yaml'' []))"
    using filesForTarget_override_shadows_default
      [where ReadDir = example_fs and dir = "''k8s''" and target = "''prod''"
         and filetype = "''file''" and suffix = "''.yaml''", OF e r]
    by blast
  have keys: "fst ` set (scan example_listing ''prod'' ''.yaml'' []) = {''a-prod.yaml'', ''a.yaml'', ''b.yaml''}"
    by (simp add: example_listing_def entry_def HasSuffix_def HasPrefix_def target_suffix_def)
  have "''a-prod.yaml'' \<in> Name ` set res"
    using ovr by (simp add: example_listing_def entry_def HasSuffix_def target_suffix_def)
  moreover have "''b.yaml'' \<in> Name ` set res" "''a.yaml'' \<notin> Name ` set res"
    using bare unfolding keys
    by (simp_all add: example_listing_def entry_def HasSuffix_def HasPrefix_def
        override_name_def TrimSuffix_def)
  ultimately show ?thesis using e r res by blast
qed

text \<open>
  Claim C3. No returned entry has a name that contains a dash and does not end with
  \<open>-<target><suffix>\<close>: a file of another target is never returned, whether or not a
  default of the same stem exists.
\<close>

theorem filesForTarget_excludes_other_targets:
  assumes "enumerates rng"
    and "filesForTarget rng ReadDir dir target filetype suffix = Inr res"
  shows "\<forall>f\<in>set res. Contains (Name f) ''-'' \<longrightarrow> HasSuffix (Name f) (target_suffix target suffix)"
proof
  fix f assume f: "f \<in> set res"
  obtain files where files: "ReadDir dir = Inr files"
    using Inr_readable [where ReadDir = ReadDir and dir = dir, OF assms(2)] by blast
  have "(Name f, f) \<in> set (scan files target suffix [])"
    using f result_set [OF assms(1) files assms(2)] by simp
  then have "candidate target suffix (Name f)"
    using scan_entries [of "Name f" f files target suffix "[]"] by simp
  then show "Contains (Name f) ''-'' \<longrightarrow> HasSuffix (Name f) (target_suffix target suffix)"
    unfolding candidate_def by blast
qed

theorem filesForTarget_excludes_other_targets_witness:
  "filesForTarget rev other_fs ''k8s'' ''mine'' ''file'' ''.yaml'' = Inr [entry ''y.yaml'']
   \<and> Contains ''x-other.yaml'' ''-''
   \<and> \<not> HasSuffix ''x-other.yaml'' (target_suffix ''mine'' ''.yaml'')
   \<and> \<not> Contains ''y.yaml'' ''-''"
  using filesForTarget_excludes_other_targets
    [where rng = rev and ReadDir = other_fs and dir = "''k8s''" and target = "''mine''"
       and filetype = "''file''" and suffix = "''.yaml''" and res = "[entry ''y.yaml'']",
     OF enumerates_rev]
  by (simp add: resolver_eval)

text \<open>
  Claim C7. The result does not depend on the order in which the runtime ranges over
  the map: two runs return the same value, and a returned sequence is strictly
  increasing in the lexicographic order of the names.
\<close>

theorem filesForTarget_deterministic:
  assumes "enumerates rng1" and "enumerates rng2"
  shows "filesForTarget rng1 ReadDir dir target filetype suffix =
           filesForTarget rng2 ReadDir dir target filetype suffix
     \<and> (\<forall>res. filesForTarget rng1 ReadDir dir target filetype suffix = Inr res \<longrightarrow>
            sorted_wrt (<) (map Name res))"
proof (cases "ReadDir dir")
  case (Inl err)
  then show ?thesis by (simp add: filesForTarget_def)
next
  case (Inr files)
  let ?m = "scan files target suffix []"
  let ?p = "\<lambda>kv. accepted ?m target suffix (fst kv)"
  let ?xs = "map snd (filter ?p (rng1 ?m))" and ?ys = "map snd (filter ?p (rng2 ?m))"
  have r1: "filesForTarget rng1 ReadDir dir target filetype suffix = Inr (sort_key Name ?xs)"
    using Inr by (rule filesForTarget_Inr)
  have r2: "filesForTarget rng2 ReadDir dir target filetype suffix = Inr (sort_key Name ?ys)"
    using Inr by (rule filesForTarget_Inr)
  have d: "distinct (map Name (sort_key Name ?xs))"
    using result_distinct [OF assms(1) Inr r1] .
  then have dx: "distinct (map Name ?xs)"
    by (simp only: distinct_map_sort_key)
  have e: "mset (rng1 ?m) = mset (rng2 ?m)"
    using assms by (simp add: enumerates_def)
  have "mset ?xs = image_mset snd (filter_mset ?p (mset (rng1 ?m)))"
    by simp
  also have "\<dots> = image_mset snd (filter_mset ?p (mset (rng2 ?m)))"
    by (simp only: e)
  also have "\<dots> = mset ?ys"
    by simp
  finally have "sort_key Name ?xs = sort_key Name ?ys"
    using dx by (rule sort_by_name_unique)
  then have same: "filesForTarget rng1 ReadDir dir target filetype suffix =
      filesForTarget rng2 ReadDir dir target filetype suffix"
    by (simp only: r1 r2)
  have "sorted (map Name (sort_key Name ?xs))"
    by (rule sorted_sort_key)
  with d have "sorted_wrt (<) (map Name (sort_key Name ?xs))"
    using strict_sorted_iff [of "map Name (sort_key Name ?xs)"] by blast
  then have "\<forall>res. filesForTarget rng1 ReadDir dir target filetype suffix = Inr res \<longrightarrow>
      sorted_wrt (<) (map Name res)"
    by (simp only: r1 sum.inject) blast
  with same show ?thesis ..
qed

theorem filesForTarget_deterministic_witness:
  "filesForTarget rev example_fs ''k8s'' ''prod'' ''file'' ''.yaml''
     = filesForTarget (\<lambda>m. m) example_fs ''k8s'' ''prod'' ''file'' ''.yaml''
   \<and> filesForTarget rev example_fs ''k8s'' ''prod'' ''file'' ''.yaml''
     = Inr [entry ''a-prod.yaml'', entry ''b.yaml'']
   \<and> sorted_wrt (<) [''a-prod.yaml'', ''b.yaml'']"
proof -
  have v: "filesForTarget rev example_fs ''k8s'' ''prod'' ''file'' ''.yaml''
     = Inr [entry ''a-prod.yaml'', entry ''b.yaml'']"
    by (simp add: resolver_eval)
  show ?thesis
    using filesForTarget_deterministic
      [where ReadDir = example_fs and dir = "''k8s''" and target = "''prod''"
         and filetype = "''file''" and suffix = "''.yaml''", OF enumerates_rev enumerates_id]
    unfolding v by (simp add: entry_def)
qed

text \<open>
  Claim C8. The resolver returns an error exactly when reading the directory returns
  it, and then the same error; a readable directory always gives a list, which is the
  empty list when no entry is a candidate.
\<close>

theorem filesForTarget_error_iff_ReadDir_fails:
  assumes "enumerates rng"
  shows "(\<forall>err. filesForTarget rng ReadDir dir target filetype suffix = Inl err
                 \<longleftrightarrow> ReadDir dir = Inl err)
     \<and> (\<forall>files. ReadDir dir = Inr files \<longrightarrow>
            (\<exists>res. filesForTarget rng ReadDir dir target filetype suffix = Inr res))
     \<and> (\<forall>files. ReadDir dir = Inr files
                  \<and> (\<forall>f\<in>set files. \<not> candidate target suffix (Name f)) \<longrightarrow>
            filesForTarget rng ReadDir dir target filetype suffix = Inr [])"
proof (intro conjI allI impI)
  fix err
  show "filesForTarget rng ReadDir dir target filetype suffix = Inl err \<longleftrightarrow> ReadDir dir = Inl err"
    by (cases "ReadDir dir") (simp_all add: filesForTarget_def Let_def)
next
  fix files assume "ReadDir dir = Inr files"
  then show "\<exists>res. filesForTarget rng ReadDir dir target filetype suffix = Inr res"
    by (rule readable_Inr)
next
  fix files
  assume a: "ReadDir dir = Inr files \<and> (\<forall>f\<in>set files. \<not> candidate target suffix (Name f))"
  then have "fst ` set (scan files target suffix []) = {}"
    unfolding scan_keys by auto
  then have m: "scan files target suffix [] = []"
    by simp
  have "mset (rng []) = {#}"
    using assms by (simp add: enumerates_def)
  then have "rng [] = []"
    by simp
  then show "filesForTarget rng ReadDir dir target filetype suffix = Inr []"
    using a by (simp add: filesForTarget_def m)
qed

theorem filesForTarget_error_iff_ReadDir_fails_witness:
  "filesForTarget rev example_fs ''missing'' ''prod'' ''file'' ''.yaml'' = Inl ErrNotExist
   \<and> example_fs ''missing'' = Inl ErrNotExist
   \<and> filesForTarget rev example_fs ''k8s'' ''prod'' ''file'' ''.sh'' = Inr []
   \<and> example_fs ''k8s'' = Inr example_listing"
  using filesForTarget_error_iff_ReadDir_fails
    [where rng = rev and ReadDir = example_fs and dir = "''missing''" and target = "''prod''"
       and filetype = "''file''" and suffix = "''.yaml''", OF enumerates_rev]
    filesForTarget_error_iff_ReadDir_fails
    [where rng = rev and ReadDir = example_fs and dir = "''k8s''" and target = "''prod''"
       and filetype = "''file''" and suffix = "''.sh''", OF enumerates_rev]
  by (simp add: resolver_eval candidate_def)

text \<open>
  Claim C10. Every returned entry has a name ending with the suffix of the kind, and
  no two returned entries have the same name.
\<close>

theorem filesForTarget_suffix_and_distinct:
  assumes "enumerates rng"
    and "filesForTarget rng ReadDir dir target filetype suffix = Inr res"
  shows "(\<forall>f\<in>set res. HasSuffix (Name f) suffix) \<and> distinct (map Name res)"
proof -
  obtain files where files: "ReadDir dir = Inr files"
    using Inr_readable [where ReadDir = ReadDir and dir = dir, OF assms(2)] by blast
  have "HasSuffix (Name f) suffix" if f: "f \<in> set res" for f
  proof -
    have "(Name f, f) \<in> set (scan files target suffix [])"
      using f result_set [OF assms(1) files assms(2)] by simp
    then have "candidate target suffix (Name f)"
      using scan_entries [of "Name f" f files target suffix "[]"] by simp
    then show ?thesis by (simp add: candidate_def)
  qed
  moreover have "distinct (map Name res)"
    using assms(1) files assms(2) by (rule result_distinct)
  ultimately show ?thesis by blast
qed

theorem filesForTarget_suffix_and_distinct_witness:
  "filesForTarget (\<lambda>m. m) example_fs ''k8s'' ''staging'' ''file'' ''.yaml''
     = Inr [entry ''a.yaml'', entry ''b.yaml'']
   \<and> HasSuffix ''a.yaml'' ''.yaml'' \<and> HasSuffix ''b.yaml'' ''.yaml''
   \<and> distinct [''a.yaml'', ''b.yaml'']"
  using filesForTarget_suffix_and_distinct
    [where rng = "\<lambda>m. m" and ReadDir = example_fs and dir = "''k8s''" and target = "''staging''"
       and filetype = "''file''" and suffix = "''.yaml''"
       and res = "[entry ''a.yaml'', entry ''b.yaml'']", OF enumerates_id]
  by (simp add: resolver_eval)

section \<open>Properties of provider detection and of the build name\<close>

lemma Identify_loop_Some:
  "Identify_loop identify cs = Some c \<longleftrightarrow>
     (\<exists>i<length cs. cs ! i = c \<and> identify c \<and> (\<forall>j<i. \<not> identify (cs ! j)))"
proof (induction cs)
  case Nil
  show ?case by simp
next
  case (Cons a cs)
  show ?case
  proof (cases "identify a")
    case True
    have "(\<exists>i<length (a # cs). (a # cs) ! i = c \<and> identify c \<and> (\<forall>j<i. \<not> identify ((a # cs) ! j)))
          \<longleftrightarrow> a = c"
    proof
      assume "\<exists>i<length (a # cs). (a # cs) ! i = c \<and> identify c \<and> (\<forall>j<i. \<not> identify ((a # cs) ! j))"
      then obtain i where i: "(a # cs) ! i = c" "\<forall>j<i. \<not> identify ((a # cs) ! j)" by blast
      have "i = 0"
      proof (rule ccontr)
        assume "i \<noteq> 0"
        then have "\<not> identify ((a # cs) ! 0)" using i(2) by blast
        then show False using True by simp
      qed
      then show "a = c" using i(1) by simp
    next
      assume "a = c"
      then have "(a # cs) ! 0 = c \<and> identify c \<and> (\<forall>j<0. \<not> identify ((a # cs) ! j))"
        using True by simp
      then show "\<exists>i<length (a # cs). (a # cs) ! i = c \<and> identify c \<and> (\<forall>j<i. \<not> identify ((a # cs) ! j))"
        by (intro exI [of _ 0]) simp
    qed
    then show ?thesis using True by simp
  next
    case False
    have "(\<exists>i<length (a # cs). (a # cs) ! i = c \<and> identify c \<and> (\<forall>j<i. \<not> identify ((a # cs) ! j)))
          \<longleftrightarrow> (\<exists>i<length cs. cs ! i = c \<and> identify c \<and> (\<forall>j<i. \<not> identify (cs ! j)))"
      (is "?L \<longleftrightarrow> ?R")
    proof
      assume ?L
      then obtain i where i: "i < length (a # cs)" "(a # cs) ! i = c" "identify c"
        "\<forall>j<i. \<not> identify ((a # cs) ! j)" by blast
      have "i \<noteq> 0" using i(2,3) False by (cases i) auto
      then obtain k where k: "i = Suc k" by (cases i) auto
      have "\<forall>j<k. \<not> identify (cs ! j)"
      proof (intro allI impI)
        fix j assume "j < k"
        then have "\<not> identify ((a # cs) ! Suc j)" using i(4) k by blast
        then show "\<not> identify (cs ! j)" by simp
      qed
      then show ?R using i k by auto
    next
      assume ?R
      then obtain i where i: "i < length cs" "cs ! i = c" "identify c"
        "\<forall>j<i. \<not> identify (cs ! j)" by blast
      have "\<forall>j<Suc i. \<not> identify ((a # cs) ! j)"
      proof (intro allI impI)
        fix j assume "j < Suc i"
        then show "\<not> identify ((a # cs) ! j)" using i(4) False by (cases j) auto
      qed
      then show ?L using i by (intro exI [of _ "Suc i"]) simp
    qed
    then show ?thesis using False Cons.IH by simp
  qed
qed

lemma Identify_loop_None:
  "Identify_loop identify cs = None \<longleftrightarrow> (\<forall>c\<in>set cs. \<not> identify c)"
  by (induction cs) auto

text \<open>
  Claim C9. \<open>Identify\<close> probes the fixed list azure, buildkite, gitlab in this order and
  returns the first provider whose \<open>identify\<close> answers true: the one at an index before
  which nobody answers true. It returns nil exactly when no provider identifies itself.
\<close>

theorem Identify_first_active:
  "cis = [Azure, Buildkite, Gitlab]
   \<and> (\<forall>c. Identify identify = Some c \<longleftrightarrow>
         (\<exists>i<length cis. cis ! i = c \<and> identify c \<and> (\<forall>j<i. \<not> identify (cis ! j))))
   \<and> (Identify identify = None \<longleftrightarrow> (\<forall>c. \<not> identify c))"
proof -
  have "set cis = UNIV"
  proof -
    have "c \<in> set cis" for c by (cases c) (simp_all add: cis_def)
    then show ?thesis by blast
  qed
  then have "Identify identify = None \<longleftrightarrow> (\<forall>c. \<not> identify c)"
    by (simp add: Identify_def Identify_loop_None)
  then show ?thesis
    by (simp add: Identify_def Identify_loop_Some) (simp add: cis_def)
qed

theorem Identify_first_active_witness:
  "Identify (\<lambda>c. c \<noteq> Azure) = Some Buildkite \<and> Identify (\<lambda>c. False) = None"
proof -
  have "\<exists>i<length cis. cis ! i = Buildkite \<and> Buildkite \<noteq> Azure \<and> (\<forall>j<i. \<not> cis ! j \<noteq> Azure)"
    by (rule exI [of _ 1]) (simp add: cis_def)
  then have "Identify (\<lambda>c. c \<noteq> Azure) = Some Buildkite"
    using Identify_first_active [of "\<lambda>c. c \<noteq> Azure"] by blast
  moreover have "Identify (\<lambda>c. False) = None"
    using Identify_first_active [of "\<lambda>c. False"] by blast
  ultimately show ?thesis ..
qed

lemma is_upper_iff: "is_upper c \<longleftrightarrow> 65 \<le> (of_char c :: nat) \<and> (of_char c :: nat) \<le> 90"
  by (simp add: is_upper_def less_eq_char_def)

lemma of_char_lower:
  "(of_char (lower c) :: nat) = (if is_upper c then of_char c + 32 else of_char c)"
  by (auto simp: lower_def is_upper_iff)

lemma lower_not_upper: "\<not> is_upper (lower c)"
  by (simp add: is_upper_iff [of "lower c"] of_char_lower) (simp add: is_upper_iff)

lemma lower_underscore: "lower c = CHR ''_'' \<longleftrightarrow> c = CHR ''_''"
proof
  assume "lower c = CHR ''_''"
  then have "(of_char (lower c) :: nat) = 95" by simp
  then have "\<not> is_upper c"
    by (auto simp: of_char_lower is_upper_iff split: if_splits)
  then show "c = CHR ''_''" using \<open>lower c = CHR ''_''\<close> by (simp add: lower_def)
next
  assume "c = CHR ''_''"
  then show "lower c = CHR ''_''" by (simp add: lower_def is_upper_iff)
qed

lemma notin_image: "(\<And>c. g c \<noteq> u) \<Longrightarrow> u \<notin> g ` A"
  by blast

lemma ball_image: "(\<And>c. \<not> P (g c)) \<Longrightarrow> \<forall>x\<in>g ` A. \<not> P x"
  by blast

lemma normalized_ascii:
  "isASCII raw \<Longrightarrow> normalized_build_name ul raw =
     map (\<lambda>c. if c = CHR ''_'' then CHR ''-'' else lower c) raw"
  by (simp add: normalized_build_name_def rewrite_underscores_def ToLower_def lower_underscore)

lemma normalized_example: "normalized_build_name ul ''dummy_repo'' = ''dummy-repo''"
  by (simp add: normalized_build_name_def rewrite_underscores_def ToLower_def isASCII_def
      lower_def is_upper_iff)

lemma set_Base: "set (Base path) \<subseteq> set path \<union> {CHR ''.'', CHR ''/''}"
proof -
  have "set (rev (takeWhile (\<lambda>c. c \<noteq> CHR ''/'')
               (rev (rev (dropWhile (\<lambda>c. c = CHR ''/'') (rev path)))))) \<subseteq> set path"
    by (auto dest!: set_takeWhileD set_dropWhileD)
  then show ?thesis
    by (auto simp: Base_def Let_def)
qed

lemma isASCII_Base: "isASCII path \<Longrightarrow> isASCII (Base path)"
proof -
  assume a: "isASCII path"
  have "(of_char c :: nat) < 128" if "c \<in> set (Base path)" for c
  proof -
    from that set_Base have "c \<in> set path \<or> c = CHR ''.'' \<or> c = CHR ''/''" by blast
    then show ?thesis using a by (auto simp: isASCII_def)
  qed
  then show ?thesis by (simp add: isASCII_def)
qed

lemma CommonCI_BuildName_lowercase:
  assumes "isASCII cwd"
  shows "\<forall>c\<in>set (CommonCI_BuildName ul cwd). \<not> is_upper c"
proof -
  have "CommonCI_BuildName ul cwd = map lower (Base cwd)"
    using isASCII_Base [OF assms] by (simp add: CommonCI_BuildName_def ToLower_def)
  moreover have "\<forall>c\<in>lower ` set (Base cwd). \<not> is_upper c"
    by (rule ball_image) (rule lower_not_upper)
  ultimately show ?thesis
    by (simp only: set_map)
qed

lemma CommonCI_BuildName_example:
  "CommonCI_BuildName (\<lambda>s. s) ''/builds/Dummy_Repo/'' = ''dummy_repo''"
  by code_simp

lemma rewrite_underscores_free: "CHR ''_'' \<notin> set (rewrite_underscores s)"
proof -
  have "(if c = CHR ''_'' then CHR ''-'' else c) \<noteq> CHR ''_''" for c :: char
    by simp
  then have "CHR ''_'' \<notin> (\<lambda>c. if c = CHR ''_'' then CHR ''-'' else c) ` set s"
    by (rule notin_image)
  then show ?thesis
    unfolding rewrite_underscores_def set_map .
qed

lemma normalized_name_shape:
  "CHR ''_'' \<notin> set (normalized_build_name ul raw)
   \<and> (isASCII raw \<longrightarrow>
        length (normalized_build_name ul raw) = length raw
        \<and> (\<forall>i<length raw. normalized_build_name ul raw ! i =
              (if raw ! i = CHR ''_'' then CHR ''-'' else lower (raw ! i)))
        \<and> (\<forall>c\<in>set (normalized_build_name ul raw). \<not> is_upper c))"
proof -
  let ?f = "\<lambda>c. if c = CHR ''_'' then CHR ''-'' else lower c"
  have c1: "CHR ''_'' \<notin> set (normalized_build_name ul raw)"
    unfolding normalized_build_name_def by (rule rewrite_underscores_free)
  have c2: "isASCII raw \<longrightarrow>
        length (normalized_build_name ul raw) = length raw
        \<and> (\<forall>i<length raw. normalized_build_name ul raw ! i =
              (if raw ! i = CHR ''_'' then CHR ''-'' else lower (raw ! i)))
        \<and> (\<forall>c\<in>set (normalized_build_name ul raw). \<not> is_upper c)"
  proof
    assume a: "isASCII raw"
    note n = normalized_ascii [OF a, of ul]
    have f2: "\<not> is_upper (?f c)" for c
      by (simp add: lower_not_upper) (simp add: is_upper_iff)
    have "\<forall>c\<in>?f ` set raw. \<not> is_upper c"
      by (rule ball_image) (rule f2)
    then have u: "\<forall>c\<in>set (normalized_build_name ul raw). \<not> is_upper c"
      unfolding n set_map .
    have i: "\<forall>i<length raw. normalized_build_name ul raw ! i =
           (if raw ! i = CHR ''_'' then CHR ''-'' else lower (raw ! i))"
      unfolding n by simp
    have l: "length (normalized_build_name ul raw) = length raw"
      unfolding n by simp
    from l i u show "length (normalized_build_name ul raw) = length raw
        \<and> (\<forall>i<length raw. normalized_build_name ul raw ! i =
              (if raw ! i = CHR ''_'' then CHR ''-'' else lower (raw ! i)))
        \<and> (\<forall>c\<in>set (normalized_build_name ul raw). \<not> is_upper c)"
      by (intro conjI)
  qed
  from c1 c2 show ?thesis ..
qed

section \<open>Properties of the promotion pipeline\<close>

lemmas fixture_defs =
  test_env_def test_world_def no_flags_def no_git_def empty_config_def dummy_config_def
  no_ci_def gitlab_ci_def initial_repo_def entry_def commits_on_def

lemmas pipeline_defs =
  DoPromote_def DoPromote_run_def finish_def of_gateway_def ResolveDescriptors_def
  GatewayPromote_def FindFilesForTarget_def descriptor_dir_def Promote_def PromoteLocal_def
  stopped_def no_op_def effective_endpoint_def resolve_credentials_def expand_home_def
  destination_path_def write_all_def tree_equal_def head_tree_def

lemma tree_equal_iff: "tree_equal a b \<longleftrightarrow> map_of a = map_of b"
proof
  assume eq: "tree_equal a b"
  show "map_of a = map_of b"
  proof
    fix p
    show "map_of a p = map_of b p"
    proof (cases "p \<in> set (map fst a @ map fst b)")
      case True
      then show ?thesis using eq by (simp add: tree_equal_def)
    next
      case False
      then have "map_of a p = None" "map_of b p = None"
        by (simp_all add: map_of_eq_None_iff)
      then show ?thesis by simp
    qed
  qed
next
  assume "map_of a = map_of b"
  then show "tree_equal a b" by (simp add: tree_equal_def)
qed

lemma map_add_upd_left: "(m(k \<mapsto> v)) ++ n = m ++ ([k \<mapsto> v] ++ n)"
  by (auto simp: map_add_def fun_eq_iff split: option.splits)

lemma map_of_fold_update:
  "map_of (fold (\<lambda>d. AList.update (f d) (g d)) ds t) =
     map_of t ++ map_of (rev (map (\<lambda>d. (f d, g d)) ds))"
proof (induction ds arbitrary: t)
  case Nil
  show ?case by simp
next
  case (Cons d ds)
  have "map_of (fold (\<lambda>d. AList.update (f d) (g d)) (d # ds) t) =
          (map_of t)(f d \<mapsto> g d) ++ map_of (rev (map (\<lambda>d. (f d, g d)) ds))"
    by (simp only: fold_simps Cons.IH update_conv' o_apply)
  also have "\<dots> = map_of t ++ ([f d \<mapsto> g d] ++ map_of (rev (map (\<lambda>d. (f d, g d)) ds)))"
    by (rule map_add_upd_left)
  also have "[f d \<mapsto> g d] ++ map_of (rev (map (\<lambda>d. (f d, g d)) ds)) =
               map_of (rev (map (\<lambda>d. (f d, g d)) (d # ds)))"
    by simp
  finally show ?case .
qed

lemma map_add_twice: "(m ++ n) ++ n = m ++ n"
  by (auto simp: map_add_def fun_eq_iff split: option.splits)

lemma write_all_idempotent:
  "tree_equal (write_all dest ds (write_all dest ds t)) (write_all dest ds t)"
  unfolding tree_equal_iff write_all_def map_of_fold_update by (rule map_add_twice)

lemma Promote_ready:
  assumes "ready w credentials" and "remotes w (ep_url endpoint) = Some repo"
  shows "Promote w endpoint credentials ds destinationPath author message =
     (let staged = write_all (destination_path (ep_path endpoint) destinationPath) ds
                     (head_tree repo);
          pushed_repo = \<lparr>c_tree = staged, c_author = author, c_message = message\<rparr> # repo
      in if tree_equal staged (head_tree repo) then
           \<lparr>outcome = Inr no_op, trace = [Clone, Authenticate, ComputePath, Write, Stage],
            remotes_after = remotes w\<rparr>
         else if fault w Commit then
           stopped w FilesystemError [Clone, Authenticate, ComputePath, Write, Stage]
         else if fault w Push then
           stopped w GitTransportError [Clone, Authenticate, ComputePath, Write, Stage, Commit]
         else
           \<lparr>outcome = Inr \<lparr>attempted = True, hash = Some (length pushed_repo), pushed = True\<rparr>,
            trace = [Clone, Authenticate, ComputePath, Write, Stage, Commit, Push],
            remotes_after = (remotes w)(ep_url endpoint \<mapsto> pushed_repo)\<rparr>)"
  using assms by (simp add: Promote_def ready_def Let_def)

lemma Promote_not_ready:
  assumes "\<not> ready w credentials \<or> remotes w (ep_url endpoint) = None"
  shows "isl (outcome (Promote w endpoint credentials ds destinationPath author message))
     \<and> remotes_after (Promote w endpoint credentials ds destinationPath author message) = remotes w
     \<and> in_order (trace (Promote w endpoint credentials ds destinationPath author message))"
proof (cases "remotes w (ep_url endpoint)")
  case None
  then show ?thesis
    by (simp add: Promote_def stopped_def in_order_def)
next
  case (Some repo)
  with assms have "\<not> ready w credentials" by simp
  then show ?thesis
    using Some by (simp add: Promote_def ready_def Let_def stopped_def in_order_def all_steps_def) blast
qed

lemma Promote_Inr_ready:
  assumes "outcome (Promote w endpoint credentials ds destinationPath author message) = Inr out"
  shows "ready w credentials \<and> (\<exists>repo. remotes w (ep_url endpoint) = Some repo)"
proof (rule ccontr)
  assume "\<not> (ready w credentials \<and> (\<exists>repo. remotes w (ep_url endpoint) = Some repo))"
  then have "\<not> ready w credentials \<or> remotes w (ep_url endpoint) = None"
    by auto
  then have "isl (outcome (Promote w endpoint credentials ds destinationPath author message))"
    by (rule Promote_not_ready [THEN conjunct1])
  then show False using assms by simp
qed

lemma Promote_trace_in_order:
  "in_order (trace (Promote w endpoint credentials ds destinationPath author message))"
proof (cases "ready w credentials \<and> (\<exists>repo. remotes w (ep_url endpoint) = Some repo)")
  case True
  then obtain repo where "remotes w (ep_url endpoint) = Some repo" by blast
  with True show ?thesis
    by (simp add: Promote_ready Let_def stopped_def all_steps_def in_order_def)
next
  case False
  then have "\<not> ready w credentials \<or> remotes w (ep_url endpoint) = None"
    by auto
  then show ?thesis
    by (rule Promote_not_ready [THEN conjunct2, THEN conjunct2])
qed

lemma Promote_remote_changes_only_by_push:
  "remotes_after (Promote w endpoint credentials ds destinationPath author message) = remotes w
   \<or> Push \<in> set (trace (Promote w endpoint credentials ds destinationPath author message))"
proof (cases "ready w credentials \<and> (\<exists>repo. remotes w (ep_url endpoint) = Some repo)")
  case True
  then obtain repo where "remotes w (ep_url endpoint) = Some repo" by blast
  with True show ?thesis
    by (simp add: Promote_ready Let_def stopped_def)
next
  case False
  then have "\<not> ready w credentials \<or> remotes w (ep_url endpoint) = None"
    by auto
  then show ?thesis
    by (simp add: Promote_not_ready)
qed

lemma Promote_second_run:
  assumes "outcome (Promote w endpoint credentials ds destinationPath author message) = Inr out"
  shows "Promote
           (w\<lparr>remotes := remotes_after
                 (Promote w endpoint credentials ds destinationPath author message)\<rparr>)
           endpoint credentials ds destinationPath author message =
         \<lparr>outcome = Inr no_op, trace = [Clone, Authenticate, ComputePath, Write, Stage],
          remotes_after =
            remotes_after (Promote w endpoint credentials ds destinationPath author message)\<rparr>"
proof -
  let ?r = "Promote w endpoint credentials ds destinationPath author message"
  let ?w2 = "w\<lparr>remotes := remotes_after ?r\<rparr>"
  let ?dest = "destination_path (ep_path endpoint) destinationPath"
  from Promote_Inr_ready [OF assms] obtain repo
    where rdy: "ready w credentials" and repo: "remotes w (ep_url endpoint) = Some repo"
    by blast
  let ?staged = "write_all ?dest ds (head_tree repo)"
  have rdy2: "ready ?w2 credentials"
    using rdy by (simp add: ready_def)
  show ?thesis
  proof (cases "tree_equal ?staged (head_tree repo)")
    case True
    then have r: "?r = \<lparr>outcome = Inr no_op, trace = [Clone, Authenticate, ComputePath, Write, Stage],
            remotes_after = remotes w\<rparr>"
      by (simp add: Promote_ready [OF rdy repo] Let_def)
    have "?w2 = w" by (simp add: r)
    then show ?thesis using r by simp
  next
    case False
    let ?new = "\<lparr>c_tree = ?staged, c_author = author, c_message = message\<rparr> # repo"
    have nofault: "\<not> fault w Commit \<and> \<not> fault w Push"
      using assms False by (auto simp: Promote_ready [OF rdy repo] Let_def stopped_def split: if_splits)
    then have after: "remotes_after ?r = (remotes w)(ep_url endpoint \<mapsto> ?new)"
      using False by (simp add: Promote_ready [OF rdy repo] Let_def)
    have repo2: "remotes ?w2 (ep_url endpoint) = Some ?new"
      by (simp add: after)
    have "tree_equal (write_all ?dest ds (head_tree ?new)) (head_tree ?new)"
      by (simp add: head_tree_def write_all_idempotent)
    then show ?thesis
      by (simp add: Promote_ready [OF rdy2 repo2] Let_def)
  qed
qed

lemma ResolveDescriptors_errors:
  "ResolveDescriptors env target = Inl e \<Longrightarrow> e = FilesystemError \<or> e = DescriptorNotFoundError"
  by (auto simp: ResolveDescriptors_def split: sum.splits if_splits)

lemma Promote_errors:
  assumes "outcome (Promote w endpoint credentials ds destinationPath author message) = Inl e"
  shows "e = CredentialError \<or> e = GitTransportError \<or> e = FilesystemError"
proof (cases "remotes w (ep_url endpoint)")
  case None
  then show ?thesis
    using assms by (simp add: Promote_def stopped_def split: if_splits)
next
  case (Some repo)
  then show ?thesis
    using assms by (simp add: Promote_def Let_def stopped_def split: if_splits)
qed

lemma PromoteLocal_errors:
  "outcome (PromoteLocal w) = Inl e \<Longrightarrow> e = FilesystemError"
  by (simp add: PromoteLocal_def stopped_def split: if_splits)

lemma GatewayPromote_errors:
  assumes "outcome (GatewayPromote env call a c ep ds) = Inl e"
  shows "e = CredentialError \<or> e = GitTransportError \<or> e = FilesystemError"
proof (cases "arg_out a")
  case None
  then show ?thesis
    using assms Promote_errors by (simp add: GatewayPromote_def Let_def)
next
  case (Some out)
  then show ?thesis
    using assms PromoteLocal_errors by (simp add: GatewayPromote_def Let_def)
qed

lemma of_gateway_exit:
  "exit_code (failure (of_gateway (GatewayPromote env call a c ep ds))) =
     (if isl (outcome (GatewayPromote env call a c ep ds)) then -4 else 0)"
proof (cases "outcome (GatewayPromote env call a c ep ds)")
  case (Inl e)
  then show ?thesis
    using GatewayPromote_errors [OF Inl] by (auto simp: of_gateway_def)
next
  case (Inr out)
  then show ?thesis by (simp add: of_gateway_def)
qed

lemma DoPromote_reached:
  assumes "reaches_descriptors call a c ep"
  shows "DoPromote_run env call =
     (case ResolveDescriptors env (arg_target a) of
        Inl e \<Rightarrow> finish env (Some e)
      | Inr ds \<Rightarrow> of_gateway (GatewayPromote env call a c ep ds))"
  using assms by (simp add: reaches_descriptors_def DoPromote_run_def)

lemma DoPromote_reached_exit:
  assumes "reaches_descriptors call a c ep"
  shows "DoPromote env call =
     (if isl (ResolveDescriptors env (arg_target a)) then -4
      else if isl (outcome (GatewayPromote env call a c ep (projr (ResolveDescriptors env (arg_target a)))))
      then -4 else 0)"
proof (cases "ResolveDescriptors env (arg_target a)")
  case (Inl e)
  then show ?thesis
    using ResolveDescriptors_errors [OF Inl]
    by (auto simp: DoPromote_def DoPromote_reached [OF assms] finish_def)
next
  case (Inr ds)
  then show ?thesis
    by (simp add: DoPromote_def DoPromote_reached [OF assms] of_gateway_exit)
qed

lemma DoPromote_not_reached:
  assumes "\<nexists>a c ep. reaches_descriptors call a c ep"
  shows "DoPromote_run env call =
     finish env
       (case args call of
          Help \<Rightarrow> None | Version \<Rightarrow> None | Malformed \<Rightarrow> Some ArgumentError
        | Parsed a \<Rightarrow>
            (case cfg call of
               Invalid \<Rightarrow> Some ConfigError
             | Loaded c \<Rightarrow>
                 (case map_of (gitops c) (arg_target a) of
                    None \<Rightarrow> Some TargetNotFoundError
                  | Some ep \<Rightarrow> Some UnidentifiedBuildError)))"
  using assms
  by (auto simp: DoPromote_run_def reaches_descriptors_def
      split: parse_result.splits config_result.splits option.splits)

lemma exit_code_cases:
  "exit_code f = 0 \<or> exit_code f = -1 \<or> exit_code f = -2 \<or> exit_code f = -3 \<or> exit_code f = -4"
  by (cases f rule: exit_code.cases) simp_all

lemma exit_code_zero: "exit_code f = 0 \<longleftrightarrow> f = None"
  by (cases f rule: exit_code.cases) simp_all

lemma exit_code_four:
  "exit_code f = -4 \<longleftrightarrow>
     f \<in> Some ` {DescriptorNotFoundError, CredentialError, GitTransportError, FilesystemError}"
  by (cases f rule: exit_code.cases) auto

lemma reaches_unique:
  "reaches_descriptors call a c ep \<Longrightarrow> reaches_descriptors call a' c' ep'
     \<Longrightarrow> a' = a \<and> c' = c \<and> ep' = ep"
  by (simp add: reaches_descriptors_def)

lemma DoPromote_reached_code:
  assumes "reaches_descriptors call a c ep"
  shows "DoPromote env call = (if gateway_fails env call a c ep then -4 else 0)"
proof (cases "ResolveDescriptors env (arg_target a)")
  case (Inl e)
  then show ?thesis
    by (simp add: DoPromote_reached_exit [OF assms] gateway_fails_def)
next
  case (Inr ds)
  then show ?thesis
    by (cases "outcome (GatewayPromote env call a c ep ds)")
       (simp_all add: DoPromote_reached_exit [OF assms] gateway_fails_def)
qed

lemma DoPromote_early_exit:
  assumes "\<nexists>a c ep. reaches_descriptors call a c ep"
  shows "DoPromote env call =
       (case args call of
          Help \<Rightarrow> 0 | Version \<Rightarrow> 0 | Malformed \<Rightarrow> -1
        | Parsed a \<Rightarrow>
            (case cfg call of
               Invalid \<Rightarrow> -1
             | Loaded c \<Rightarrow>
                 (case map_of (gitops c) (arg_target a) of
                    None \<Rightarrow> -2
                  | Some ep \<Rightarrow> -3)))"
  unfolding DoPromote_def DoPromote_not_reached [OF assms]
  by (simp add: finish_def split: parse_result.splits config_result.splits option.splits)

text \<open>
  Claim C1. \<open>DoPromote\<close> ends with one of the five exit codes 0, -1, -2, -3, -4, by
  kind of failure: 0 for help and version and when nothing fails (a push or a no-op);
  -1 exactly for a malformed command line or a configuration that does not load; -2
  exactly when the target is no key of the \<open>gitops\<close> section; -3 exactly when the target
  is one and the CI metadata has an empty commit or branch; -4 exactly when all of that
  passes and descriptor resolution or the gateway fails, that is for the failure kinds
  descriptor not found, credential, git transport and file system.
\<close>

theorem DoPromote_exit_codes:
  "DoPromote env call \<in> {0, -1, -2, -3, -4}
   \<and> (args call = Help \<or> args call = Version \<longrightarrow> DoPromote env call = 0)
   \<and> (DoPromote env call = -1 \<longleftrightarrow>
        args call = Malformed \<or> (\<exists>a. args call = Parsed a \<and> cfg call = Invalid))
   \<and> (DoPromote env call = -2 \<longleftrightarrow>
        (\<exists>a c. args call = Parsed a \<and> cfg call = Loaded c
               \<and> map_of (gitops c) (arg_target a) = None))
   \<and> (DoPromote env call = -3 \<longleftrightarrow>
        (\<exists>a c ep. args call = Parsed a \<and> cfg call = Loaded c
               \<and> map_of (gitops c) (arg_target a) = Some ep
               \<and> (ci_Commit (ci call) = [] \<or> ci_Branch (ci call) = [])))
   \<and> (DoPromote env call = -4 \<longleftrightarrow>
        (\<exists>a c ep. reaches_descriptors call a c ep \<and> gateway_fails env call a c ep))
   \<and> (DoPromote env call = -4 \<longleftrightarrow>
        failure (DoPromote_run env call) \<in>
          Some ` {DescriptorNotFoundError, CredentialError, GitTransportError, FilesystemError})
   \<and> (DoPromote env call = 0 \<longleftrightarrow> failure (DoPromote_run env call) = None)"
proof -
  have codes: "DoPromote env call \<in> {0, -1, -2, -3, -4}"
    using exit_code_cases [of "failure (DoPromote_run env call)"] by (auto simp: DoPromote_def)
  have four: "DoPromote env call = -4 \<longleftrightarrow>
        failure (DoPromote_run env call) \<in>
          Some ` {DescriptorNotFoundError, CredentialError, GitTransportError, FilesystemError}"
    unfolding DoPromote_def by (rule exit_code_four)
  have zero: "DoPromote env call = 0 \<longleftrightarrow> failure (DoPromote_run env call) = None"
    unfolding DoPromote_def by (rule exit_code_zero)
  have rest: "(args call = Help \<or> args call = Version \<longrightarrow> DoPromote env call = 0)
   \<and> (DoPromote env call = -1 \<longleftrightarrow>
        args call = Malformed \<or> (\<exists>a. args call = Parsed a \<and> cfg call = Invalid))
   \<and> (DoPromote env call = -2 \<longleftrightarrow>
        (\<exists>a c. args call = Parsed a \<and> cfg call = Loaded c
               \<and> map_of (gitops c) (arg_target a) = None))
   \<and> (DoPromote env call = -3 \<longleftrightarrow>
        (\<exists>a c ep. args call = Parsed a \<and> cfg call = Loaded c
               \<and> map_of (gitops c) (arg_target a) = Some ep
               \<and> (ci_Commit (ci call) = [] \<or> ci_Branch (ci call) = [])))
   \<and> (DoPromote env call = -4 \<longleftrightarrow>
        (\<exists>a c ep. reaches_descriptors call a c ep \<and> gateway_fails env call a c ep))"
  proof (cases "\<exists>a c ep. reaches_descriptors call a c ep")
    case True
    then obtain a c ep where r: "reaches_descriptors call a c ep" by blast
    have u: "(\<exists>a' c' ep'. reaches_descriptors call a' c' ep' \<and> gateway_fails env call a' c' ep')
               \<longleftrightarrow> gateway_fails env call a c ep"
      using r reaches_unique [OF r] by blast
    show ?thesis
      unfolding u DoPromote_reached_code [OF r]
      using r by (simp add: reaches_descriptors_def)
  next
    case False
    then have n: "\<nexists>a c ep. reaches_descriptors call a c ep" by simp
    have "\<not> (\<exists>a c ep. reaches_descriptors call a c ep \<and> gateway_fails env call a c ep)"
      using n by blast
    then show ?thesis
      unfolding DoPromote_early_exit [OF n]
      using n
      by (simp add: reaches_descriptors_def
            split: parse_result.splits config_result.splits option.splits)
         (metis option.distinct(1))
  qed
  from codes rest four zero show ?thesis by blast
qed

theorem DoPromote_exit_codes_witness:
  "DoPromote (test_env False) missing_target_call = -2
   \<and> DoPromote (test_env False) \<lparr>args = Help, cfg = Invalid, ci = no_ci\<rparr> = 0"
proof -
  have "\<exists>a c. args missing_target_call = Parsed a \<and> cfg missing_target_call = Loaded c
           \<and> map_of (gitops c) (arg_target a) = None"
    by (simp add: missing_target_call_def empty_config_def)
  then have "DoPromote (test_env False) missing_target_call = -2"
    using DoPromote_exit_codes [of "test_env False" missing_target_call] by blast
  moreover have "DoPromote (test_env False) \<lparr>args = Help, cfg = Invalid, ci = no_ci\<rparr> = 0"
    using DoPromote_exit_codes [of "test_env False" "\<lparr>args = Help, cfg = Invalid, ci = no_ci\<rparr>"]
    by simp
  ultimately show ?thesis ..
qed

lemma in_order_cases:
  assumes "in_order tr"
  shows "tr = [] \<or> tr = [Clone] \<or> tr = [Clone, Authenticate]
     \<or> tr = [Clone, Authenticate, ComputePath]
     \<or> tr = [Clone, Authenticate, ComputePath, Write]
     \<or> tr = [Clone, Authenticate, ComputePath, Write, Stage]
     \<or> tr = [Clone, Authenticate, ComputePath, Write, Stage, Commit]
     \<or> tr = [Clone, Authenticate, ComputePath, Write, Stage, Commit, Push]"
proof -
  from assms have eq: "take (length tr) all_steps = tr"
    by (simp add: in_order_def)
  then have "length (take (length tr) all_steps) = length tr"
    by simp
  then have "length tr \<le> length all_steps"
    by simp
  then have "length tr \<in> set [0..<8]"
    by (simp add: all_steps_def)
  then show ?thesis
    using eq by (auto simp: upt_rec all_steps_def)
qed

lemma ordered_in_order:
  assumes "in_order tr"
  shows "(Push \<in> set tr \<longrightarrow> Commit \<in> set (takeWhile (\<lambda>s. s \<noteq> Push) tr))
     \<and> (Commit \<in> set tr \<longrightarrow> Write \<in> set (takeWhile (\<lambda>s. s \<noteq> Commit) tr))"
  using in_order_cases [OF assms] by auto

lemma Promote_without_write:
  assumes "Write \<notin> set (trace (Promote w endpoint credentials ds destinationPath author message))"
  shows "isl (outcome (Promote w endpoint credentials ds destinationPath author message))
     \<and> remotes_after (Promote w endpoint credentials ds destinationPath author message) = remotes w"
proof (cases "ready w credentials \<and> (\<exists>repo. remotes w (ep_url endpoint) = Some repo)")
  case True
  then obtain repo where "remotes w (ep_url endpoint) = Some repo" by blast
  with True assms show ?thesis
    by (simp add: Promote_ready Let_def stopped_def split: if_splits)
next
  case False
  then have "\<not> ready w credentials \<or> remotes w (ep_url endpoint) = None"
    by auto
  then show ?thesis
    by (simp add: Promote_not_ready)
qed

text \<open>
  Claim C5. In every run of the gateway the completed steps are an initial part of
  clone, authenticate, compute path, write, stage, commit, push. So a push is preceded by
  a completed commit and a commit by a completed write; a run that does not complete the
  write (a failure in steps 1 to 4) ends in an error and leaves the remote repositories
  as they were; and the remote changes only in a run that pushes. At the orchestrator, a
  target missing from the configuration (exit code -2) runs no step of the gateway and
  leaves the remote repositories as they were.
\<close>

theorem Promote_side_effects_ordered:
  "in_order (trace (Promote w endpoint credentials ds destinationPath author message))
   \<and> (Push \<in> set (trace (Promote w endpoint credentials ds destinationPath author message)) \<longrightarrow>
        Commit \<in> set (takeWhile (\<lambda>s. s \<noteq> Push)
          (trace (Promote w endpoint credentials ds destinationPath author message))))
   \<and> (Commit \<in> set (trace (Promote w endpoint credentials ds destinationPath author message)) \<longrightarrow>
        Write \<in> set (takeWhile (\<lambda>s. s \<noteq> Commit)
          (trace (Promote w endpoint credentials ds destinationPath author message))))
   \<and> (Write \<notin> set (trace (Promote w endpoint credentials ds destinationPath author message)) \<longrightarrow>
        isl (outcome (Promote w endpoint credentials ds destinationPath author message))
        \<and> remotes_after (Promote w endpoint credentials ds destinationPath author message)
            = remotes w)
   \<and> (remotes_after (Promote w endpoint credentials ds destinationPath author message)
         \<noteq> remotes w \<longrightarrow>
        Push \<in> set (trace (Promote w endpoint credentials ds destinationPath author message)))
   \<and> (DoPromote env call = -2 \<longrightarrow>
        steps (DoPromote_run env call) = []
        \<and> remotes_final (DoPromote_run env call) = remotes (env_world env))"
proof -
  let ?r = "Promote w endpoint credentials ds destinationPath author message"
  have p: "in_order (trace ?r)"
    by (rule Promote_trace_in_order)
  note o = ordered_in_order [OF p]
  have w: "Write \<notin> set (trace ?r) \<longrightarrow> isl (outcome ?r) \<and> remotes_after ?r = remotes w"
    using Promote_without_write by blast
  have c: "remotes_after ?r \<noteq> remotes w \<longrightarrow> Push \<in> set (trace ?r)"
    using Promote_remote_changes_only_by_push [of w endpoint credentials ds destinationPath author message]
    by blast
  have t: "DoPromote env call = -2 \<longrightarrow>
        steps (DoPromote_run env call) = []
        \<and> remotes_final (DoPromote_run env call) = remotes (env_world env)"
  proof
    assume m2: "DoPromote env call = -2"
    have "\<nexists>a c ep. reaches_descriptors call a c ep"
    proof
      assume "\<exists>a c ep. reaches_descriptors call a c ep"
      then obtain a c ep where "reaches_descriptors call a c ep" by blast
      then show False
        using m2 by (simp add: DoPromote_reached_code split: if_splits)
    qed
    then show "steps (DoPromote_run env call) = []
        \<and> remotes_final (DoPromote_run env call) = remotes (env_world env)"
      by (simp add: DoPromote_not_reached finish_def)
  qed
  from p o w c t show ?thesis by blast
qed

theorem Promote_side_effects_ordered_witness:
  "Push \<in> set (trace (Promote test_world dummy_endpoint default_credentials one_descriptor
                        ''dummy'' (None, None) (''dummy'', ''abc123'')))
   \<and> Commit \<in> set (takeWhile (\<lambda>s. s \<noteq> Push)
        (trace (Promote test_world dummy_endpoint default_credentials one_descriptor
                  ''dummy'' (None, None) (''dummy'', ''abc123''))))
   \<and> Write \<in> set (takeWhile (\<lambda>s. s \<noteq> Commit)
        (trace (Promote test_world dummy_endpoint default_credentials one_descriptor
                  ''dummy'' (None, None) (''dummy'', ''abc123''))))
   \<and> Write \<notin> set (trace (Promote test_world (dummy_endpoint\<lparr>ep_url := ''/missing/repo''\<rparr>)
                        default_credentials one_descriptor
                        ''dummy'' (None, None) (''dummy'', ''abc123'')))
   \<and> remotes_after (Promote test_world (dummy_endpoint\<lparr>ep_url := ''/missing/repo''\<rparr>)
                        default_credentials one_descriptor
                        ''dummy'' (None, None) (''dummy'', ''abc123'')) = remotes test_world
   \<and> DoPromote (test_env False) missing_target_call = -2
   \<and> steps (DoPromote_run (test_env False) missing_target_call) = []"
proof -
  let ?r = "Promote test_world dummy_endpoint default_credentials one_descriptor
              ''dummy'' (None, None) (''dummy'', ''abc123'')"
  let ?f = "Promote test_world (dummy_endpoint\<lparr>ep_url := ''/missing/repo''\<rparr>)
              default_credentials one_descriptor ''dummy'' (None, None) (''dummy'', ''abc123'')"
  note t = Promote_side_effects_ordered [of test_world dummy_endpoint default_credentials
      one_descriptor "''dummy''" "(None, None)" "(''dummy'', ''abc123'')"
      "test_env False" missing_target_call]
  note u = Promote_side_effects_ordered [of test_world "dummy_endpoint\<lparr>ep_url := ''/missing/repo''\<rparr>"
      default_credentials one_descriptor "''dummy''" "(None, None)" "(''dummy'', ''abc123'')"
      "test_env False" missing_target_call]
  have push: "Push \<in> set (trace ?r)"
    by code_simp
  have nowrite: "Write \<notin> set (trace ?f)"
    by code_simp
  have m2: "DoPromote (test_env False) missing_target_call = -2"
    by code_simp
  from t push have c: "Commit \<in> set (takeWhile (\<lambda>s. s \<noteq> Push) (trace ?r))"
    by blast
  then have "Commit \<in> set (trace ?r)"
    by (rule set_takeWhileD [THEN conjunct1])
  with t have w: "Write \<in> set (takeWhile (\<lambda>s. s \<noteq> Commit) (trace ?r))"
    by blast
  from u nowrite have r: "remotes_after ?f = remotes test_world"
    by blast
  from t m2 have s: "steps (DoPromote_run (test_env False) missing_target_call) = []"
    by blast
  from push c w nowrite r m2 s show ?thesis
    by (intro conjI)
qed

lemma after_run_fields:
  "env_ReadDir (after_run env call) = env_ReadDir env"
  "env_ReadFile (after_run env call) = env_ReadFile env"
  "env_range_of (after_run env call) = env_range_of env"
  "env_home (after_run env call) = env_home env"
  "env_unicode_lower (after_run env call) = env_unicode_lower env"
  by (simp_all add: after_run_def)

lemma ResolveDescriptors_after_run:
  "ResolveDescriptors (after_run env call) target = ResolveDescriptors env target"
  unfolding ResolveDescriptors_def after_run_fields ..

lemma PromoteLocal_remotes: "remotes_after (PromoteLocal w) = remotes w"
  by (simp add: PromoteLocal_def stopped_def)

lemma PromoteLocal_steps:
  "Commit \<notin> set (trace (PromoteLocal w)) \<and> Push \<notin> set (trace (PromoteLocal w))"
  by (simp add: PromoteLocal_def stopped_def)

lemma second_run_reached:
  assumes r: "reaches_descriptors call a c ep" and ok: "DoPromote env call = 0"
  shows "DoPromote (after_run env call) call = 0
     \<and> remotes_final (DoPromote_run (after_run env call) call)
         = remotes_final (DoPromote_run env call)
     \<and> Commit \<notin> set (steps (DoPromote_run (after_run env call) call))
     \<and> Push \<notin> set (steps (DoPromote_run (after_run env call) call))"
proof -
  let ?env2 = "after_run env call"
  have nf: "\<not> gateway_fails env call a c ep"
    using ok by (simp add: DoPromote_reached_code [OF r] split: if_splits)
  then obtain ds where ds: "ResolveDescriptors env (arg_target a) = Inr ds"
    by (cases "ResolveDescriptors env (arg_target a)") (simp_all add: gateway_fails_def)
  with nf obtain out where out: "outcome (GatewayPromote env call a c ep ds) = Inr out"
    by (cases "outcome (GatewayPromote env call a c ep ds)") (simp_all add: gateway_fails_def)
  have run1: "DoPromote_run env call = of_gateway (GatewayPromote env call a c ep ds)"
    by (simp add: DoPromote_reached [OF r] ds)
  have ds2: "ResolveDescriptors ?env2 (arg_target a) = Inr ds"
    by (simp add: ResolveDescriptors_after_run ds)
  have run2: "DoPromote_run ?env2 call = of_gateway (GatewayPromote ?env2 call a c ep ds)"
    by (simp add: DoPromote_reached [OF r] ds2)
  have w2: "env_world ?env2 = (env_world env)\<lparr>remotes := remotes_after (GatewayPromote env call a c ep ds)\<rparr>"
    by (simp add: after_run_def run1 of_gateway_def)
  have g: "outcome (GatewayPromote ?env2 call a c ep ds) = Inr no_op
     \<and> remotes_after (GatewayPromote ?env2 call a c ep ds)
         = remotes_after (GatewayPromote env call a c ep ds)
     \<and> Commit \<notin> set (trace (GatewayPromote ?env2 call a c ep ds))
     \<and> Push \<notin> set (trace (GatewayPromote ?env2 call a c ep ds))"
  proof (cases "arg_out a")
    case (Some path)
    have l1: "GatewayPromote env call a c ep ds = PromoteLocal (env_world env)"
      using Some by (simp add: GatewayPromote_def)
    have l2: "GatewayPromote ?env2 call a c ep ds = PromoteLocal (env_world ?env2)"
      using Some by (simp add: GatewayPromote_def)
    have same: "env_world ?env2 = env_world env"
      by (simp add: w2 l1 PromoteLocal_remotes)
    have "outcome (PromoteLocal (env_world env)) = Inr no_op"
      using out unfolding l1 by (simp add: PromoteLocal_def stopped_def split: if_splits)
    then show ?thesis
      unfolding l2 same l1 by (simp add: PromoteLocal_steps)
  next
    case None
    let ?p = "\<lambda>w. Promote w (effective_endpoint a ep)
               (resolve_credentials (env_home env) a (git c)) ds
               (normalized_build_name (env_unicode_lower env) (ci_BuildName (ci call)))
               (git_name (git c), git_email (git c))
               (normalized_build_name (env_unicode_lower env) (ci_BuildName (ci call)),
                ci_Commit (ci call))"
    have l1: "GatewayPromote env call a c ep ds = ?p (env_world env)"
      using None by (simp add: GatewayPromote_def Let_def)
    have l2: "GatewayPromote ?env2 call a c ep ds = ?p (env_world ?env2)"
      using None by (simp add: GatewayPromote_def Let_def after_run_fields)
    have "outcome (?p (env_world env)) = Inr out"
      using out by (simp only: l1)
    then have "?p ((env_world env)\<lparr>remotes := remotes_after (?p (env_world env))\<rparr>) =
         \<lparr>outcome = Inr no_op, trace = [Clone, Authenticate, ComputePath, Write, Stage],
          remotes_after = remotes_after (?p (env_world env))\<rparr>"
      by (rule Promote_second_run)
    then show ?thesis
      unfolding l2 w2 l1 by simp
  qed
  then show ?thesis
    unfolding DoPromote_def run2 run1 by (simp add: of_gateway_def)
qed

lemma second_run_not_reached:
  assumes n: "\<nexists>a c ep. reaches_descriptors call a c ep" and ok: "DoPromote env call = 0"
  shows "DoPromote (after_run env call) call = 0
     \<and> remotes_final (DoPromote_run (after_run env call) call)
         = remotes_final (DoPromote_run env call)
     \<and> Commit \<notin> set (steps (DoPromote_run (after_run env call) call))
     \<and> Push \<notin> set (steps (DoPromote_run (after_run env call) call))"
proof -
  have "after_run env call = env"
    by (simp add: after_run_def DoPromote_not_reached [OF n] finish_def)
  then show ?thesis
    using ok by (simp add: DoPromote_not_reached [OF n] finish_def)
qed

lemma promoted_hyp:
  "ready promoted_world default_credentials
   \<and> remotes promoted_world (ep_url dummy_endpoint) = Some promoted_repo
   \<and> tree_equal
        (write_all (destination_path (ep_path dummy_endpoint) ''dummy'') one_descriptor
           (head_tree promoted_repo))
        (head_tree promoted_repo)"
  by (simp add: fixture_defs pipeline_defs ready_def promoted_world_def promoted_repo_def
      dummy_endpoint_def default_credentials_def one_descriptor_def HasPrefix_def)

text \<open>
  Claim C4. When steps 1 to 5 of the gateway meet no failure and the staged tree equals
  the HEAD tree, the gateway neither commits nor pushes and succeeds with the no-op
  outcome. And a second promotion with the same inputs, run on what a successful first
  one left behind, succeeds again (exit code 0), completes neither a commit nor a push,
  and leaves every remote repository as the first run left it: no new commit.
\<close>

theorem second_promotion_creates_no_commit:
  "(ready w credentials \<and> remotes w (ep_url endpoint) = Some repo
      \<and> tree_equal
           (write_all (destination_path (ep_path endpoint) destinationPath) ds (head_tree repo))
           (head_tree repo) \<longrightarrow>
      Promote w endpoint credentials ds destinationPath author message =
        \<lparr>outcome = Inr no_op, trace = [Clone, Authenticate, ComputePath, Write, Stage],
         remotes_after = remotes w\<rparr>)
   \<and> (DoPromote env call = 0 \<longrightarrow>
        DoPromote (after_run env call) call = 0
        \<and> remotes_final (DoPromote_run (after_run env call) call)
            = remotes_final (DoPromote_run env call)
        \<and> Commit \<notin> set (steps (DoPromote_run (after_run env call) call))
        \<and> Push \<notin> set (steps (DoPromote_run (after_run env call) call)))"
proof (intro conjI impI)
  assume "ready w credentials \<and> remotes w (ep_url endpoint) = Some repo
      \<and> tree_equal
           (write_all (destination_path (ep_path endpoint) destinationPath) ds (head_tree repo))
           (head_tree repo)"
  then show "Promote w endpoint credentials ds destinationPath author message =
        \<lparr>outcome = Inr no_op, trace = [Clone, Authenticate, ComputePath, Write, Stage],
         remotes_after = remotes w\<rparr>"
    by (simp add: Promote_ready Let_def)
next
  assume ok: "DoPromote env call = 0"
  have all: "DoPromote (after_run env call) call = 0
     \<and> remotes_final (DoPromote_run (after_run env call) call)
         = remotes_final (DoPromote_run env call)
     \<and> Commit \<notin> set (steps (DoPromote_run (after_run env call) call))
     \<and> Push \<notin> set (steps (DoPromote_run (after_run env call) call))"
  proof (cases "\<exists>a c ep. reaches_descriptors call a c ep")
    case True
    then obtain a c ep where "reaches_descriptors call a c ep" by blast
    then show ?thesis using ok by (rule second_run_reached)
  next
    case False
    then have "\<nexists>a c ep. reaches_descriptors call a c ep" by simp
    then show ?thesis using ok by (rule second_run_not_reached)
  qed
  from all show "DoPromote (after_run env call) call = 0" by blast
  from all show "remotes_final (DoPromote_run (after_run env call) call)
         = remotes_final (DoPromote_run env call)" by blast
  from all show "Commit \<notin> set (steps (DoPromote_run (after_run env call) call))" by blast
  from all show "Push \<notin> set (steps (DoPromote_run (after_run env call) call))" by blast
qed

theorem second_promotion_creates_no_commit_witness:
  "outcome (Promote promoted_world dummy_endpoint default_credentials one_descriptor
              ''dummy'' (None, None) (''dummy'', ''abc123'')) = Inr no_op
   \<and> DoPromote (test_env True) ok_call = 0
   \<and> commits_on ''git-repo'' (DoPromote_run (test_env True) ok_call) = 1
   \<and> DoPromote (after_run (test_env True) ok_call) ok_call = 0
   \<and> commits_on ''git-repo'' (DoPromote_run (after_run (test_env True) ok_call) ok_call) = 1
   \<and> Commit \<notin> set (steps (DoPromote_run (after_run (test_env True) ok_call) ok_call))"
proof -
  note t = second_promotion_creates_no_commit [of promoted_world default_credentials
      dummy_endpoint promoted_repo "''dummy''" one_descriptor "(None, None)"
      "(''dummy'', ''abc123'')" "test_env True" ok_call]
  from t promoted_hyp have "Promote promoted_world dummy_endpoint default_credentials
      one_descriptor ''dummy'' (None, None) (''dummy'', ''abc123'') =
        \<lparr>outcome = Inr no_op, trace = [Clone, Authenticate, ComputePath, Write, Stage],
         remotes_after = remotes promoted_world\<rparr>"
    by blast
  then have noop: "outcome (Promote promoted_world dummy_endpoint default_credentials
      one_descriptor ''dummy'' (None, None) (''dummy'', ''abc123'')) = Inr no_op"
    by simp
  have first: "DoPromote (test_env True) ok_call = 0"
    by code_simp
  have one: "commits_on ''git-repo'' (DoPromote_run (test_env True) ok_call) = 1"
    by code_simp
  from t first have again: "DoPromote (after_run (test_env True) ok_call) ok_call = 0"
    and same: "remotes_final (DoPromote_run (after_run (test_env True) ok_call) ok_call)
                 = remotes_final (DoPromote_run (test_env True) ok_call)"
    and nocommit: "Commit \<notin> set (steps (DoPromote_run (after_run (test_env True) ok_call) ok_call))"
    by blast+
  have "commits_on ''git-repo'' (DoPromote_run (after_run (test_env True) ok_call) ok_call) = 1"
    using one by (simp add: commits_on_def same)
  with noop first one again nocommit show ?thesis
    by (intro conjI)
qed

lemma Promote_not_ready_no_push:
  assumes "\<not> ready w credentials \<or> remotes w (ep_url endpoint) = None"
  shows "Push \<notin> set (trace (Promote w endpoint credentials ds destinationPath author message))"
proof (cases "remotes w (ep_url endpoint)")
  case None
  then show ?thesis
    by (simp add: Promote_def stopped_def)
next
  case (Some repo)
  with assms have "\<not> ready w credentials" by simp
  then show ?thesis
    using Some by (simp add: Promote_def ready_def Let_def stopped_def) blast
qed

lemma Promote_pushed:
  assumes "Push \<in> set (trace (Promote w endpoint credentials ds destinationPath author message))"
  shows "\<exists>repo. remotes w (ep_url endpoint) = Some repo
     \<and> remotes_after (Promote w endpoint credentials ds destinationPath author message)
          (ep_url endpoint) =
        Some (\<lparr>c_tree = write_all (destination_path (ep_path endpoint) destinationPath) ds
                          (head_tree repo),
               c_author = author, c_message = message\<rparr> # repo)"
proof (cases "ready w credentials \<and> (\<exists>repo. remotes w (ep_url endpoint) = Some repo)")
  case True
  then obtain repo where repo: "remotes w (ep_url endpoint) = Some repo" by blast
  from True have rdy: "ready w credentials" by blast
  have "remotes_after (Promote w endpoint credentials ds destinationPath author message)
          (ep_url endpoint) =
        Some (\<lparr>c_tree = write_all (destination_path (ep_path endpoint) destinationPath) ds
                          (head_tree repo),
               c_author = author, c_message = message\<rparr> # repo)"
    using assms
    by (simp add: Promote_ready [OF rdy repo] Let_def stopped_def split: if_splits)
  with repo show ?thesis by blast
next
  case False
  then have "\<not> ready w credentials \<or> remotes w (ep_url endpoint) = None"
    by auto
  then have "Push \<notin> set (trace (Promote w endpoint credentials ds destinationPath author message))"
    by (rule Promote_not_ready_no_push)
  with assms show ?thesis by blast
qed

lemma map_of_write_all:
  "map_of (write_all dest ds t) p =
     (case map_of (rev (map (\<lambda>d. (written_path dest d, d_content d)) ds)) p of
        None \<Rightarrow> map_of t p
      | Some v \<Rightarrow> Some v)"
  unfolding write_all_def written_path_def map_of_fold_update by (simp add: map_add_def)

lemma write_all_elsewhere:
  assumes "p \<notin> written_path dest ` set ds"
  shows "map_of (write_all dest ds t) p = map_of t p"
proof -
  have "p \<notin> fst ` set (rev (map (\<lambda>d. (written_path dest d, d_content d)) ds))"
    using assms by (auto simp: image_iff)
  then have "map_of (rev (map (\<lambda>d. (written_path dest d, d_content d)) ds)) p = None"
    by (simp add: map_of_eq_None_iff)
  then show ?thesis
    by (simp add: map_of_write_all)
qed

lemma write_all_present:
  assumes "d \<in> set ds"
  shows "map_of (write_all dest ds t) (written_path dest d) \<noteq> None"
proof -
  have "written_path dest d \<in> fst ` set (rev (map (\<lambda>d. (written_path dest d, d_content d)) ds))"
    using assms by (auto simp: image_iff)
  then have "map_of (rev (map (\<lambda>d. (written_path dest d, d_content d)) ds))
               (written_path dest d) \<noteq> None"
    by (simp add: map_of_eq_None_iff)
  then show ?thesis
    by (auto simp: map_of_write_all split: option.splits)
qed

lemma write_all_content:
  assumes "distinct (map d_name ds)" and "d \<in> set ds"
  shows "map_of (write_all dest ds t) (written_path dest d) = Some (d_content d)"
proof -
  let ?kv = "rev (map (\<lambda>d. (written_path dest d, d_content d)) ds)"
  have "map fst ?kv = rev (map (\<lambda>n. dest @ ''/'' @ n) (map d_name ds))"
    by (simp add: written_path_def rev_map comp_def)
  moreover have "distinct (map (\<lambda>n. dest @ ''/'' @ n) (map d_name ds))"
    using assms(1) by (simp add: distinct_map inj_on_def)
  ultimately have "distinct (map fst ?kv)"
    by simp
  moreover have "(written_path dest d, d_content d) \<in> set ?kv"
    using assms(2) by auto
  ultimately have "map_of ?kv (written_path dest d) = Some (d_content d)"
    by (rule map_of_is_SomeI)
  then show ?thesis
    by (simp add: map_of_write_all)
qed

lemma PromoteLocal_no_push: "Push \<notin> set (trace (PromoteLocal w))"
  by (simp add: PromoteLocal_def stopped_def)

lemma GatewayPromote_remote:
  assumes "arg_out a = None"
  shows "GatewayPromote env call a c ep ds =
     Promote (env_world env) (effective_endpoint a ep)
       (resolve_credentials (env_home env) a (git c)) ds
       (normalized_build_name (env_unicode_lower env) (ci_BuildName (ci call)))
       (git_name (git c), git_email (git c))
       (normalized_build_name (env_unicode_lower env) (ci_BuildName (ci call)),
        ci_Commit (ci call))"
  using assms by (simp add: GatewayPromote_def Let_def)

lemma DoPromote_pushed:
  assumes r: "reaches_descriptors call a c ep"
    and ds: "ResolveDescriptors env (arg_target a) = Inr ds"
    and push: "Push \<in> set (steps (DoPromote_run env call))"
  shows "\<exists>repo new. remotes (env_world env) (ep_url (effective_endpoint a ep)) = Some repo
     \<and> remotes_final (DoPromote_run env call) (ep_url (effective_endpoint a ep))
          = Some (new # repo)
     \<and> c_tree new = write_all (destination_of env call a ep) ds (head_tree repo)"
proof -
  have run: "DoPromote_run env call = of_gateway (GatewayPromote env call a c ep ds)"
    by (simp add: DoPromote_reached [OF r] ds)
  have tr: "Push \<in> set (trace (GatewayPromote env call a c ep ds))"
    using push by (simp add: run of_gateway_def)
  have out: "arg_out a = None"
  proof (cases "arg_out a")
    case None
    then show ?thesis .
  next
    case (Some path)
    then have "GatewayPromote env call a c ep ds = PromoteLocal (env_world env)"
      by (simp add: GatewayPromote_def)
    with tr show ?thesis by (simp add: PromoteLocal_no_push)
  qed
  note g = GatewayPromote_remote [OF out, of env call c ep ds]
  from tr obtain repo where
    repo: "remotes (env_world env) (ep_url (effective_endpoint a ep)) = Some repo"
    and after: "remotes_after (GatewayPromote env call a c ep ds) (ep_url (effective_endpoint a ep))
      = Some (\<lparr>c_tree = write_all (destination_path (ep_path (effective_endpoint a ep))
                  (normalized_build_name (env_unicode_lower env) (ci_BuildName (ci call))))
                  ds (head_tree repo),
               c_author = (git_name (git c), git_email (git c)),
               c_message = (normalized_build_name (env_unicode_lower env) (ci_BuildName (ci call)),
                            ci_Commit (ci call))\<rparr> # repo)"
    unfolding g using Promote_pushed by blast
  show ?thesis
    using repo after by (simp add: run of_gateway_def destination_of_def)
qed

lemma promoted_under_destination:
  assumes r: "reaches_descriptors call a c ep"
    and ds: "ResolveDescriptors env (arg_target a) = Inr ds"
    and push: "Push \<in> set (steps (DoPromote_run env call))"
  shows "\<exists>repo new.
       remotes (env_world env) (ep_url (effective_endpoint a ep)) = Some repo
     \<and> remotes_final (DoPromote_run env call) (ep_url (effective_endpoint a ep))
          = Some (new # repo)
     \<and> c_tree new = write_all (destination_of env call a ep) ds (head_tree repo)
     \<and> (\<forall>d\<in>set ds. map_of (c_tree new) (written_path (destination_of env call a ep) d)
                       \<noteq> None)
     \<and> (distinct (map d_name ds) \<longrightarrow>
          (\<forall>d\<in>set ds. map_of (c_tree new) (written_path (destination_of env call a ep) d)
                          = Some (d_content d)))
     \<and> (\<forall>p. p \<notin> written_path (destination_of env call a ep) ` set ds \<longrightarrow>
              map_of (c_tree new) p = map_of (head_tree repo) p)"
proof -
  from DoPromote_pushed [OF r ds push] obtain repo new where
    repo: "remotes (env_world env) (ep_url (effective_endpoint a ep)) = Some repo"
    and new: "remotes_final (DoPromote_run env call) (ep_url (effective_endpoint a ep))
          = Some (new # repo)"
    and tree: "c_tree new = write_all (destination_of env call a ep) ds (head_tree repo)"
    by blast
  have present: "\<forall>d\<in>set ds. map_of (c_tree new) (written_path (destination_of env call a ep) d)
                       \<noteq> None"
    unfolding tree by (simp add: write_all_present)
  have content: "distinct (map d_name ds) \<longrightarrow>
          (\<forall>d\<in>set ds. map_of (c_tree new) (written_path (destination_of env call a ep) d)
                          = Some (d_content d))"
    unfolding tree by (simp add: write_all_content)
  have elsewhere: "\<forall>p. p \<notin> written_path (destination_of env call a ep) ` set ds \<longrightarrow>
              map_of (c_tree new) p = map_of (head_tree repo) p"
    unfolding tree by (simp add: write_all_elsewhere)
  from repo new tree present content elsewhere show ?thesis
    by blast
qed

text \<open>
  Claim C6. The build name used for the destination path segment is the raw build name
  of the CI metadata in lowercase with every \<open>_\<close> rewritten to \<open>-\<close>, and it is this
  value that the pipeline uses. The value: it is \<open>strings.ToLower\<close> of the raw name
  with the underscores rewritten; it never contains \<open>_\<close>; for an ASCII raw name it has
  the same length, each character is \<open>-\<close> where the raw one is \<open>_\<close> and the lowercase
  of the raw one elsewhere, and it has no uppercase letter; \<open>dummy_repo\<close> gives the
  segment \<open>dummy-repo\<close>; the name that \<open>CommonCI.BuildName\<close> computes from an ASCII
  working directory has no uppercase letter either. Its use: the destination of an
  invocation is the configured path followed by this value; the orchestrator hands this
  value to the gateway as the path segment; and in every run that pushes, the pushed
  commit's tree is the HEAD tree with the descriptors written under that destination:
  every descriptor is present at its path there (with its content when the names are
  distinct), and every other path of the tree, one under the raw name included, is as it
  was.
\<close>

theorem normalized_build_name_lowercase_dashed:
  "normalized_build_name ul raw = rewrite_underscores (ToLower ul raw)
   \<and> CHR ''_'' \<notin> set (normalized_build_name ul raw)
   \<and> (isASCII raw \<longrightarrow>
        length (normalized_build_name ul raw) = length raw
        \<and> (\<forall>i<length raw. normalized_build_name ul raw ! i =
              (if raw ! i = CHR ''_'' then CHR ''-'' else lower (raw ! i)))
        \<and> (\<forall>c\<in>set (normalized_build_name ul raw). \<not> is_upper c))
   \<and> normalized_build_name ul ''dummy_repo'' = ''dummy-repo''
   \<and> destination_path p (normalized_build_name ul ''dummy_repo'') = p @ ''/dummy-repo''
   \<and> (isASCII cwd \<longrightarrow> (\<forall>c\<in>set (CommonCI_BuildName ul cwd). \<not> is_upper c))
   \<and> destination_of env call a ep =
        ep_path (effective_endpoint a ep) @ ''/''
          @ normalized_build_name (env_unicode_lower env) (ci_BuildName (ci call))
   \<and> (arg_out a = None \<longrightarrow>
        GatewayPromote env call a c ep ds =
          Promote (env_world env) (effective_endpoint a ep)
            (resolve_credentials (env_home env) a (git c)) ds
            (normalized_build_name (env_unicode_lower env) (ci_BuildName (ci call)))
            (git_name (git c), git_email (git c))
            (normalized_build_name (env_unicode_lower env) (ci_BuildName (ci call)),
             ci_Commit (ci call)))
   \<and> (reaches_descriptors call a c ep \<and> ResolveDescriptors env (arg_target a) = Inr ds
        \<and> Push \<in> set (steps (DoPromote_run env call)) \<longrightarrow>
        (\<exists>repo new.
            remotes (env_world env) (ep_url (effective_endpoint a ep)) = Some repo
          \<and> remotes_final (DoPromote_run env call) (ep_url (effective_endpoint a ep))
               = Some (new # repo)
          \<and> c_tree new = write_all (destination_of env call a ep) ds (head_tree repo)
          \<and> (\<forall>d\<in>set ds. map_of (c_tree new) (written_path (destination_of env call a ep) d)
                            \<noteq> None)
          \<and> (distinct (map d_name ds) \<longrightarrow>
               (\<forall>d\<in>set ds. map_of (c_tree new) (written_path (destination_of env call a ep) d)
                               = Some (d_content d)))
          \<and> (\<forall>p. p \<notin> written_path (destination_of env call a ep) ` set ds \<longrightarrow>
                   map_of (c_tree new) p = map_of (head_tree repo) p)))"
proof -
  have c0: "normalized_build_name ul raw = rewrite_underscores (ToLower ul raw)"
    by (simp add: normalized_build_name_def)
  note shape = normalized_name_shape [of ul raw]
  from shape have c1: "CHR ''_'' \<notin> set (normalized_build_name ul raw)"
    by (rule conjunct1)
  from shape have c2: "isASCII raw \<longrightarrow>
        length (normalized_build_name ul raw) = length raw
        \<and> (\<forall>i<length raw. normalized_build_name ul raw ! i =
              (if raw ! i = CHR ''_'' then CHR ''-'' else lower (raw ! i)))
        \<and> (\<forall>c\<in>set (normalized_build_name ul raw). \<not> is_upper c)"
    by (rule conjunct2)
  have c4: "destination_path p (normalized_build_name ul ''dummy_repo'') = p @ ''/dummy-repo''"
    by (simp add: normalized_example destination_path_def)
  have c5: "isASCII cwd \<longrightarrow> (\<forall>c\<in>set (CommonCI_BuildName ul cwd). \<not> is_upper c)"
    using CommonCI_BuildName_lowercase by blast
  have c6: "destination_of env call a ep =
        ep_path (effective_endpoint a ep) @ ''/''
          @ normalized_build_name (env_unicode_lower env) (ci_BuildName (ci call))"
    by (simp add: destination_of_def destination_path_def)
  have c7: "arg_out a = None \<longrightarrow>
        GatewayPromote env call a c ep ds =
          Promote (env_world env) (effective_endpoint a ep)
            (resolve_credentials (env_home env) a (git c)) ds
            (normalized_build_name (env_unicode_lower env) (ci_BuildName (ci call)))
            (git_name (git c), git_email (git c))
            (normalized_build_name (env_unicode_lower env) (ci_BuildName (ci call)),
             ci_Commit (ci call))"
    using GatewayPromote_remote by blast
  have c8: "reaches_descriptors call a c ep \<and> ResolveDescriptors env (arg_target a) = Inr ds
        \<and> Push \<in> set (steps (DoPromote_run env call)) \<longrightarrow>
        (\<exists>repo new.
            remotes (env_world env) (ep_url (effective_endpoint a ep)) = Some repo
          \<and> remotes_final (DoPromote_run env call) (ep_url (effective_endpoint a ep))
               = Some (new # repo)
          \<and> c_tree new = write_all (destination_of env call a ep) ds (head_tree repo)
          \<and> (\<forall>d\<in>set ds. map_of (c_tree new) (written_path (destination_of env call a ep) d)
                            \<noteq> None)
          \<and> (distinct (map d_name ds) \<longrightarrow>
               (\<forall>d\<in>set ds. map_of (c_tree new) (written_path (destination_of env call a ep) d)
                               = Some (d_content d)))
          \<and> (\<forall>p. p \<notin> written_path (destination_of env call a ep) ` set ds \<longrightarrow>
                   map_of (c_tree new) p = map_of (head_tree repo) p))"
  proof
    assume h: "reaches_descriptors call a c ep \<and> ResolveDescriptors env (arg_target a) = Inr ds
        \<and> Push \<in> set (steps (DoPromote_run env call))"
    from h have h1: "reaches_descriptors call a c ep" by (rule conjunct1)
    from h have h2: "ResolveDescriptors env (arg_target a) = Inr ds"
      by (rule conjunct1 [OF conjunct2])
    from h have h3: "Push \<in> set (steps (DoPromote_run env call))"
      by (rule conjunct2 [OF conjunct2])
    from h1 h2 h3 show "\<exists>repo new.
            remotes (env_world env) (ep_url (effective_endpoint a ep)) = Some repo
          \<and> remotes_final (DoPromote_run env call) (ep_url (effective_endpoint a ep))
               = Some (new # repo)
          \<and> c_tree new = write_all (destination_of env call a ep) ds (head_tree repo)
          \<and> (\<forall>d\<in>set ds. map_of (c_tree new) (written_path (destination_of env call a ep) d)
                            \<noteq> None)
          \<and> (distinct (map d_name ds) \<longrightarrow>
               (\<forall>d\<in>set ds. map_of (c_tree new) (written_path (destination_of env call a ep) d)
                               = Some (d_content d)))
          \<and> (\<forall>p. p \<notin> written_path (destination_of env call a ep) ` set ds \<longrightarrow>
                   map_of (c_tree new) p = map_of (head_tree repo) p)"
      by (rule promoted_under_destination)
  qed
  from c0 c1 c2 normalized_example c4 c5 c6 c7 c8 show ?thesis
    by (intro conjI)
qed

theorem normalized_build_name_lowercase_dashed_witness:
  "isASCII ''Dummy_Repo'' \<and> normalized_build_name (\<lambda>s. s) ''Dummy_Repo'' ! 0 = CHR ''d''
   \<and> normalized_build_name (\<lambda>s. s) ''Dummy_Repo'' ! 5 = CHR ''-''
   \<and> length (normalized_build_name (\<lambda>s. s) ''Dummy_Repo'') = 10
   \<and> isASCII ''/builds/Dummy_Repo''
   \<and> CommonCI_BuildName (\<lambda>s. s) ''/builds/Dummy_Repo'' = ''dummy_repo''
   \<and> reaches_descriptors normalized_call (no_flags ''dummy'') (dummy_config no_git)
        dummy_endpoint
   \<and> ResolveDescriptors (test_env True) ''dummy'' = Inr one_descriptor
   \<and> Push \<in> set (steps (DoPromote_run (test_env True) normalized_call))
   \<and> ci_BuildName (ci normalized_call) = ''dummy_repo''
   \<and> map_option head_tree (remotes_final (DoPromote_run (test_env True) normalized_call)
        ''git-repo'')
      = Some [(''file'', ''test''), (''/dummy-repo/descriptor.yaml'', ''kind: ConfigMap'')]"
proof -
  let ?a = "no_flags ''dummy''" and ?c = "dummy_config no_git"
  have a: "isASCII ''Dummy_Repo''" by (simp add: isASCII_def)
  have b: "isASCII ''/builds/Dummy_Repo''" by (simp add: isASCII_def)
  have l: "lower CHR ''D'' = CHR ''d''" by code_simp
  have e: "CommonCI_BuildName (\<lambda>s. s) ''/builds/Dummy_Repo'' = ''dummy_repo''" by code_simp
  note t = normalized_build_name_lowercase_dashed
             [of "\<lambda>s. s" "''Dummy_Repo''" "[]" "''/builds/Dummy_Repo''"
                 "test_env True" normalized_call ?a dummy_endpoint ?c one_descriptor]
  from t a have len: "length (normalized_build_name (\<lambda>s. s) ''Dummy_Repo'') = length ''Dummy_Repo''"
    by blast
  from t a have nth: "\<forall>i<length ''Dummy_Repo''. normalized_build_name (\<lambda>s. s) ''Dummy_Repo'' ! i =
           (if ''Dummy_Repo'' ! i = CHR ''_'' then CHR ''-'' else lower (''Dummy_Repo'' ! i))"
    by blast
  have n0: "normalized_build_name (\<lambda>s. s) ''Dummy_Repo'' ! 0 = CHR ''d''"
    using nth [rule_format, of 0] l by simp
  have n5: "normalized_build_name (\<lambda>s. s) ''Dummy_Repo'' ! 5 = CHR ''-''"
    using nth [rule_format, of 5] by simp
  have len10: "length (normalized_build_name (\<lambda>s. s) ''Dummy_Repo'') = 10"
    using len by simp
  have r: "reaches_descriptors normalized_call ?a ?c dummy_endpoint"
    by (simp add: reaches_descriptors_def normalized_call_def no_flags_def dummy_config_def
        dummy_endpoint_def gitlab_ci_def)
  have d: "ResolveDescriptors (test_env True) ''dummy'' = Inr one_descriptor"
    by (simp add: ResolveDescriptors_def FindFilesForTarget_def descriptor_dir_def test_env_def
        one_descriptor_def resolver_eval)
  have tgt: "arg_target ?a = ''dummy''"
    by (simp add: no_flags_def)
  have d': "ResolveDescriptors (test_env True) (arg_target ?a) = Inr one_descriptor"
    by (simp only: tgt d)
  have push: "Push \<in> set (steps (DoPromote_run (test_env True) normalized_call))"
    by code_simp
  have raw: "ci_BuildName (ci normalized_call) = ''dummy_repo''"
    by (simp add: normalized_call_def gitlab_ci_def)
  have url: "ep_url (effective_endpoint ?a dummy_endpoint) = ''git-repo''"
    by (simp add: effective_endpoint_def no_flags_def dummy_endpoint_def)
  have dest: "destination_of (test_env True) normalized_call ?a dummy_endpoint = ''/dummy-repo''"
    by (simp add: destination_of_def destination_path_def effective_endpoint_def no_flags_def
        dummy_endpoint_def raw test_env_def normalized_example)
  have start: "remotes (env_world (test_env True)) ''git-repo'' = Some initial_repo"
    by (simp add: test_env_def test_world_def)
  from t r d' push obtain repo new where
    repo: "remotes (env_world (test_env True)) (ep_url (effective_endpoint ?a dummy_endpoint))
             = Some repo"
    and new: "remotes_final (DoPromote_run (test_env True) normalized_call)
               (ep_url (effective_endpoint ?a dummy_endpoint)) = Some (new # repo)"
    and tree: "c_tree new = write_all
                 (destination_of (test_env True) normalized_call ?a dummy_endpoint)
                 one_descriptor (head_tree repo)"
    by blast
  from repo start have "repo = initial_repo"
    by (simp add: url)
  then have "c_tree new = [(''file'', ''test''), (''/dummy-repo/descriptor.yaml'', ''kind: ConfigMap'')]"
    using tree
    by (simp add: dest write_all_def one_descriptor_def initial_repo_def head_tree_def)
  then have final: "map_option head_tree
        (remotes_final (DoPromote_run (test_env True) normalized_call) ''git-repo'')
      = Some [(''file'', ''test''), (''/dummy-repo/descriptor.yaml'', ''kind: ConfigMap'')]"
    using new by (simp add: url head_tree_def)
  from a n0 n5 len10 b e r d push raw final show ?thesis
    by (intro conjI)
qed

subsection \<open>The rows of the test table\<close>

text \<open>
  Each row of \<^verbatim>\<open>TestDoPromote\<close> gives the same exit code, and the same number of new
  commits on the repository the test counts them on, when run on the model.
\<close>

lemma row_invalid_argument:
  "DoPromote (test_env False) \<lparr>args = Malformed, cfg = Loaded empty_config, ci = no_ci\<rparr> = -1"
  by (simp add: pipeline_defs)

lemma row_help:
  "DoPromote (test_env False) \<lparr>args = Help, cfg = Invalid, ci = no_ci\<rparr> = 0"
  by (simp add: pipeline_defs)

lemma row_broken_config:
  "DoPromote (test_env False) \<lparr>args = Parsed (no_flags ''dummy''), cfg = Invalid, ci = no_ci\<rparr> = -1"
  by (simp add: pipeline_defs)

lemma row_missing_target:
  "DoPromote (test_env False)
     \<lparr>args = Parsed (no_flags ''dummy''), cfg = Loaded empty_config, ci = no_ci\<rparr> = -2"
  by (simp add: pipeline_defs fixture_defs)

lemma row_no_ci:
  "DoPromote (test_env False)
     \<lparr>args = Parsed (no_flags ''dummy''), cfg = Loaded (dummy_config no_git), ci = no_ci\<rparr> = -3"
  by (simp add: pipeline_defs fixture_defs)

lemma row_no_descriptors:
  "DoPromote (test_env False)
     \<lparr>args = Parsed (no_flags ''dummy''), cfg = Loaded (dummy_config no_git),
      ci = gitlab_ci ''dummy''\<rparr> = -4"
  by (simp add: pipeline_defs fixture_defs filesForTarget_def)

lemma row_generation_successful:
  "DoPromote (test_env True)
     \<lparr>args = Parsed (no_flags ''dummy''), cfg = Loaded (dummy_config no_git),
      ci = gitlab_ci ''dummy''\<rparr> = 0
   \<and> commits_on ''git-repo'' (DoPromote_run (test_env True)
     \<lparr>args = Parsed (no_flags ''dummy''), cfg = Loaded (dummy_config no_git),
      ci = gitlab_ci ''dummy''\<rparr>) = 1"
  by code_simp

lemma row_normalized:
  "DoPromote (test_env True)
     \<lparr>args = Parsed (no_flags ''dummy''), cfg = Loaded (dummy_config no_git),
      ci = gitlab_ci ''dummy_repo''\<rparr> = 0
   \<and> map_option (\<lambda>repo. map fst (head_tree repo))
       (remotes_final (DoPromote_run (test_env True)
          \<lparr>args = Parsed (no_flags ''dummy''), cfg = Loaded (dummy_config no_git),
           ci = gitlab_ci ''dummy_repo''\<rparr>) ''git-repo'')
     = Some [''file'', ''/dummy-repo/descriptor.yaml'']"
  by code_simp

lemma row_other_repo_path_tag:
  "DoPromote (test_env True)
     \<lparr>args = Parsed ((no_flags ''dummy'')\<lparr>arg_url := Some ''other-repo'',
                 arg_path := Some ''test/path'', arg_tag := Some ''testing''\<rparr>),
      cfg = Loaded (dummy_config no_git), ci = gitlab_ci ''dummy''\<rparr> = 0
   \<and> commits_on ''git-repo'' (DoPromote_run (test_env True)
     \<lparr>args = Parsed ((no_flags ''dummy'')\<lparr>arg_url := Some ''other-repo'',
                 arg_path := Some ''test/path'', arg_tag := Some ''testing''\<rparr>),
      cfg = Loaded (dummy_config no_git), ci = gitlab_ci ''dummy''\<rparr>) = 0
   \<and> commits_on ''other-repo'' (DoPromote_run (test_env True)
     \<lparr>args = Parsed ((no_flags ''dummy'')\<lparr>arg_url := Some ''other-repo'',
                 arg_path := Some ''test/path'', arg_tag := Some ''testing''\<rparr>),
      cfg = Loaded (dummy_config no_git), ci = gitlab_ci ''dummy''\<rparr>) = 1"
  by code_simp

lemma row_other_key_from_config:
  "DoPromote (test_env True)
     \<lparr>args = Parsed (no_flags ''dummy''),
      cfg = Loaded (dummy_config (no_git\<lparr>git_key := Some ''~/other/id_rsa''\<rparr>)),
      ci = gitlab_ci ''dummy''\<rparr> = 0"
  by code_simp

lemma row_clone_error:
  "DoPromote (test_env True)
     \<lparr>args = Parsed ((no_flags ''dummy'')\<lparr>arg_url := Some ''/missing/repo''\<rparr>),
      cfg = Loaded (dummy_config no_git), ci = gitlab_ci ''dummy''\<rparr> = -4
   \<and> commits_on ''git-repo'' (DoPromote_run (test_env True)
     \<lparr>args = Parsed ((no_flags ''dummy'')\<lparr>arg_url := Some ''/missing/repo''\<rparr>),
      cfg = Loaded (dummy_config no_git), ci = gitlab_ci ''dummy''\<rparr>) = 0"
  by code_simp

lemma row_missing_key:
  "DoPromote (test_env True)
     \<lparr>args = Parsed ((no_flags ''dummy'')\<lparr>arg_key := Some ''/missing/key''\<rparr>),
      cfg = Loaded (dummy_config no_git), ci = gitlab_ci ''dummy''\<rparr> = -4
   \<and> commits_on ''git-repo'' (DoPromote_run (test_env True)
     \<lparr>args = Parsed ((no_flags ''dummy'')\<lparr>arg_key := Some ''/missing/key''\<rparr>),
      cfg = Loaded (dummy_config no_git), ci = gitlab_ci ''dummy''\<rparr>) = 0"
  by code_simp

end
